theory Spec2Isabelle
  imports Main "HOL-Library.Sublist"
begin

section \<open>Strings and the regular-expression replacements of the source\<close>

text \<open>
  JavaScript strings are modelled as \<^typ>\<open>string\<close>; a character is one code unit below
  256, so only the ASCII letters take part in case-insensitive matching (the \<open>i\<close> flag
  without the \<open>u\<close> flag never folds a code unit of 128 or more onto an ASCII letter).
\<close>

definition is_upper :: "char \<Rightarrow> bool" where
  "is_upper c = (65 \<le> (of_char c :: nat) \<and> (of_char c :: nat) \<le> 90)"

definition is_lower :: "char \<Rightarrow> bool" where
  "is_lower c = (97 \<le> (of_char c :: nat) \<and> (of_char c :: nat) \<le> 122)"

definition is_digit :: "char \<Rightarrow> bool" where
  "is_digit c = (48 \<le> (of_char c :: nat) \<and> (of_char c :: nat) \<le> 57)"

text \<open>The class \<open>\w\<close> of a JavaScript regular expression: \<open>[A-Za-z0-9_]\<close>.\<close>

definition is_word :: "char \<Rightarrow> bool" where
  "is_word c = (is_upper c \<or> is_lower c \<or> is_digit c \<or> c = CHR ''_'')"

definition to_lower :: "char \<Rightarrow> char" where
  "to_lower c = (if is_upper c then char_of ((of_char c :: nat) + 32) else c)"

text \<open>
  \<open>ci_prefix p s\<close>: the literal \<open>p\<close> (written in lower case) matches at the start of
  \<open>s\<close> under the \<open>i\<close> flag.
\<close>

fun ci_prefix :: "string \<Rightarrow> string \<Rightarrow> bool" where
  "ci_prefix [] s = True"
| "ci_prefix (p # ps) [] = False"
| "ci_prefix (p # ps) (c # cs) = (to_lower c = p \<and> ci_prefix ps cs)"


text \<open>\<open>upto_char c s\<close>: the number of characters of \<open>s\<close> up to and including the first \<open>c\<close>.\<close>

fun upto_char :: "char \<Rightarrow> string \<Rightarrow> nat option" where
  "upto_char c [] = None"
| "upto_char c (x # xs) = (if x = c then Some 1 else map_option Suc (upto_char c xs))"

text \<open>
  The lazy group \<open>([\s\S]*?)<\/script>\<close>: the number of characters up to and including
  the first closing tag.
\<close>

fun upto_close_script :: "string \<Rightarrow> nat option" where
  "upto_close_script [] = None"
| "upto_close_script (x # xs) =
     (if ci_prefix ''</script>'' (x # xs) then Some 9
      else map_option Suc (upto_close_script xs))"

text \<open>
  \<open>/<script\b[^>]*>([\s\S]*?)<\/script>/gim\<close> tried at the start of \<open>s\<close>: the length of
  the match. After \<open><script\<close> the word boundary asks for a next character outside
  \<open>\w\<close>; \<open>[^>]*>\<close> can only end at the first \<open>>\<close>; the lazy group ends at the first
  closing tag after it.
\<close>

definition match_script :: "string \<Rightarrow> nat option" where
  "match_script s =
     (if ci_prefix ''<script'' s then
        (case drop 7 s of
           [] \<Rightarrow> None
         | c # r \<Rightarrow>
             if is_word c then None
             else (case upto_char (CHR ''>'') (c # r) of
                     None \<Rightarrow> None
                   | Some a \<Rightarrow>
                       (case upto_close_script (drop a (c # r)) of
                          None \<Rightarrow> None
                        | Some b \<Rightarrow> Some (7 + a + b))))
      else None)"

text \<open>
  \<open>/on\w+="[^"]*"/gim\<close> tried at the start of \<open>s\<close>: \<open>on\<close>, the longest non-empty run of
  word characters, \<open>="\<close>, and everything up to the next double quote.
\<close>

definition match_handler :: "string \<Rightarrow> nat option" where
  "match_handler s =
     (if ci_prefix ''on'' s then
        (let r = drop 2 s; w = takeWhile is_word r; r2 = dropWhile is_word r in
         if w = [] then None
         else if take 2 r2 = [CHR ''='', CHR 0x22] then
           (case upto_char (CHR 0x22) (drop 2 r2) of
              None \<Rightarrow> None
            | Some a \<Rightarrow> Some (2 + length w + 2 + a))
         else None)
      else None)"

text \<open>\<open>/<[^>]*>/g\<close> tried at the start of \<open>s\<close>.\<close>

definition match_tag :: "string \<Rightarrow> nat option" where
  "match_tag s =
     (case s of
        [] \<Rightarrow> None
      | c # r \<Rightarrow> if c = CHR ''<'' then map_option Suc (upto_char (CHR ''>'') r) else None)"

text \<open>
  \<open>s.replace(re, "")\<close> with the \<open>g\<close> flag: the string is scanned from the left; where
  the expression matches, the matched characters are dropped and the scan goes on after
  them; elsewhere the character is kept. The counter is the number of characters of the
  current match still to drop.
\<close>

fun replace_all :: "(string \<Rightarrow> nat option) \<Rightarrow> nat \<Rightarrow> string \<Rightarrow> string" where
  "replace_all m k [] = []"
| "replace_all m (Suc k) (c # cs) = replace_all m k cs"
| "replace_all m 0 (c # cs) =
     (case m (c # cs) of
        None \<Rightarrow> c # replace_all m 0 cs
      | Some 0 \<Rightarrow> c # replace_all m 0 cs
      | Some (Suc n) \<Rightarrow> replace_all m n cs)"


text \<open>
  \<open>String.prototype.trim\<close>: the white space of JavaScript among the code units below
  256 is tab, line feed, vertical tab, form feed, carriage return, space and the
  no-break space.
\<close>

definition is_space :: "char \<Rightarrow> bool" where
  "is_space c = ((of_char c :: nat) \<in> {9, 10, 11, 12, 13, 32, 160})"

definition trim :: "string \<Rightarrow> string" where
  "trim s = rev (dropWhile is_space (rev (dropWhile is_space s)))"

text \<open>
  \<open>sanitizeHtml\<close> of \<open>multiAccountEmailService.ts\<close>: the empty string is returned as
  it is; otherwise the script elements are removed, then the double-quoted \<open>on...\<close>
  attributes.
\<close>

definition sanitizeHtml :: "string \<Rightarrow> string" where
  "sanitizeHtml html =
     (if html = [] then []
      else (let sanitized = replace_all match_script 0 html
            in replace_all match_handler 0 sanitized))"


section \<open>The data model\<close>

text \<open>
  The rows of the tables \<open>emailAccounts\<close>, \<open>emailThreads\<close>, \<open>emailMessages\<close> and
  \<open>emailAttachments\<close>, with the columns the service and the route read or write. Row
  identifiers are generated by the database; here they are natural numbers drawn from a
  counter. A timestamp is a natural number. A text column that may be unset holds the
  empty string, which JavaScript treats as false like \<open>undefined\<close> and \<open>null\<close>.
  The schema is not among the sources: \<open>externalThreadId\<close> is the column of a thread
  that the query \<open>eq((emailThreads as any).externalThreadId, ...)\<close> reads, taken to be
  \<open>null\<close> (here \<open>None\<close>) in a row inserted without it; no uniqueness or foreign-key
  constraint is assumed.
\<close>

record account =
  acc_id :: nat
  userId :: string
  provider :: string
  emailAddress :: string
  accountName :: string
  isDefault :: bool
  isActive :: bool
  createdAt :: nat
  smtpHost :: string
  smtpPort :: "nat option"
  smtpSecure :: "bool option"
  username :: string
  password :: string

record thread =
  thr_id :: nat
  thr_subject :: string
  participantEmails :: "string list"
  lastMessageAt :: nat
  messageCount :: int
  thr_createdBy :: string
  externalThreadId :: "string option"

record message =
  msg_id :: nat
  threadId :: nat
  emailAccountId :: nat
  externalMessageId :: "string option"
  fromEmail :: string
  toEmails :: "string list"
  ccEmails :: "string list"
  bccEmails :: "string list"
  subject :: string
  htmlBody :: string
  textBody :: string
  messageType :: string
  isRead :: bool
  sentAt :: nat
  createdBy :: string

record attachment =
  att_messageId :: nat
  fileName :: string
  fileSize :: nat
  mimeType :: string
  fileContent :: string

text \<open>The interface \<open>ExternalMessage\<close>: a message as a provider returns it.\<close>

record external_message =
  xm_externalMessageId :: string
  xm_externalThreadId :: "string option"
  xm_subject :: string
  xm_from :: string
  xm_to :: "string list"
  xm_cc :: "string list option"
  xm_bcc :: "string list option"
  xm_htmlBody :: string
  xm_textBody :: string
  xm_date :: nat

text \<open>
  A transporter of \<open>nodemailer\<close>, identified with the options \<open>createTransport\<close> is
  called with.
\<close>

record transporter =
  tr_host :: string
  tr_port :: nat
  tr_secure :: bool
  tr_user :: string
  tr_pass :: string

text \<open>The result \<open>{ success, messageId?, error? }\<close> of a send.\<close>

record send_result =
  success :: bool
  sr_messageId :: "string option"
  sr_error :: "string option"

datatype log_entry = Info string | Warn string | WarnScore int | WarnIssues "string list"

text \<open>
  Everything the code reads and writes beyond its arguments: the four tables, the
  identifier counter of the database, the static \<open>transporterCache\<close>, and a record of
  the calls made to the collaborators outside this code (the awaited \<open>setTimeout\<close>
  delays, the \<open>verify\<close> calls issued and the transporters that passed, the results of
  \<open>sendFromAccount\<close>, the calls of \<open>EmailRateLimiter.recordEmailSent\<close>, what the route
  logs). A database call may throw: \<open>faults\<close> says, call after call, whether the next
  one does; past its end no call throws.
\<close>

record world =
  accounts :: "account list"
  threads :: "thread list"
  messages :: "message list"
  attachments :: "attachment list"
  nextId :: nat
  faults :: "bool list"
  delays :: "nat list"
  transporterCache :: "nat \<rightharpoonup> transporter"
  verifyCalls :: nat
  verified :: "transporter list"
  sendLog :: "send_result list"
  recorded :: "(string \<times> string) list"
  logged :: "log_entry list"

text \<open>What a \<open>try\<close> block sees of an awaited call: its value, or an exception.\<close>

datatype 'a outcome = Returned 'a | Thrown

definition db_call :: "world \<Rightarrow> bool \<times> world" where
  "db_call w = (case faults w of [] \<Rightarrow> (False, w) | f # fs \<Rightarrow> (f, w\<lparr>faults := fs\<rparr>))"

definition insert_thread :: "thread \<Rightarrow> world \<Rightarrow> thread outcome \<times> world" where
  "insert_thread vals w =
     (let (f, w1) = db_call w in
      if f then (Thrown, w1)
      else (let t = vals\<lparr>thr_id := nextId w1\<rparr>
            in (Returned t, w1\<lparr>threads := threads w1 @ [t], nextId := Suc (nextId w1)\<rparr>)))"

definition insert_message :: "message \<Rightarrow> world \<Rightarrow> message outcome \<times> world" where
  "insert_message vals w =
     (let (f, w1) = db_call w in
      if f then (Thrown, w1)
      else (let r = vals\<lparr>msg_id := nextId w1\<rparr>
            in (Returned r, w1\<lparr>messages := messages w1 @ [r], nextId := Suc (nextId w1)\<rparr>)))"

section \<open>Saving an inbound message: \<open>saveMessageWithRetry\<close>\<close>

text \<open>
  The query for a thread linked to the provider's thread, made only when
  \<open>message.externalThreadId\<close> is truthy.
\<close>

definition find_linked_thread :: "external_message \<Rightarrow> world \<Rightarrow> thread option outcome \<times> world" where
  "find_linked_thread message w =
     (case xm_externalThreadId message of
        None \<Rightarrow> (Returned None, w)
      | Some ext \<Rightarrow>
          if ext = [] then (Returned None, w)
          else (let (f, w1) = db_call w in
                if f then (Thrown, w1)
                else (Returned (find (\<lambda>t. externalThreadId t = Some ext) (threads w1)), w1)))"

text \<open>
  The values of the thread inserted for an inbound message: \<open>subject\<close>,
  \<open>participantEmails\<close>, \<open>lastMessageAt\<close>, \<open>messageCount: 0\<close> and \<open>createdBy\<close>. No other
  column is given, so \<open>externalThreadId\<close> keeps its default.
\<close>

definition inbound_thread_values :: "external_message \<Rightarrow> string \<Rightarrow> thread" where
  "inbound_thread_values message uid =
     \<lparr>thr_id = 0, thr_subject = xm_subject message,
      participantEmails = xm_from message # xm_to message,
      lastMessageAt = xm_date message, messageCount = 0, thr_createdBy = uid,
      externalThreadId = None\<rparr>"

definition inbound_message_values ::
  "external_message \<Rightarrow> account \<Rightarrow> string \<Rightarrow> string \<Rightarrow> nat \<Rightarrow> message" where
  "inbound_message_values message acct uid sanitizedHtmlBody tid =
     \<lparr>msg_id = 0, threadId = tid, emailAccountId = acc_id acct,
      externalMessageId = Some (xm_externalMessageId message),
      fromEmail = xm_from message, toEmails = xm_to message,
      ccEmails = (case xm_cc message of None \<Rightarrow> [] | Some cs \<Rightarrow> cs),
      bccEmails = (case xm_bcc message of None \<Rightarrow> [] | Some bs \<Rightarrow> bs),
      subject = xm_subject message, htmlBody = sanitizedHtmlBody,
      textBody = xm_textBody message, messageType = ''received'', isRead = False,
      sentAt = xm_date message, createdBy = uid\<rparr>"

text \<open>The body of the \<open>try\<close> block: one attempt.\<close>

definition save_attempt ::
  "external_message \<Rightarrow> account \<Rightarrow> string \<Rightarrow> string \<Rightarrow> world \<Rightarrow> bool outcome \<times> world" where
  "save_attempt message acct uid sanitizedHtmlBody w =
     (let (f, w1) = db_call w in
      if f then (Thrown, w1)
      else (case find (\<lambda>r. externalMessageId r = Some (xm_externalMessageId message))
                   (messages w1) of
              Some existingMessage \<Rightarrow> (Returned False, w1)
            | None \<Rightarrow>
                (case find_linked_thread message w1 of
                   (Thrown, w2) \<Rightarrow> (Thrown, w2)
                 | (Returned existingThread, w2) \<Rightarrow>
                     (case (case existingThread of
                              Some t \<Rightarrow> (Returned t, w2)
                            | None \<Rightarrow> insert_thread (inbound_thread_values message uid) w2) of
                        (Thrown, w3) \<Rightarrow> (Thrown, w3)
                      | (Returned t, w3) \<Rightarrow>
                          (case insert_message
                                  (inbound_message_values message acct uid sanitizedHtmlBody
                                     (thr_id t)) w3 of
                             (Thrown, w4) \<Rightarrow> (Thrown, w4)
                           | (Returned r, w4) \<Rightarrow> (Returned True, w4))))))"

text \<open>
  The loop \<open>for (attempt = 0; attempt <= retries; attempt++)\<close>: a thrown attempt is
  followed by a delay of \<open>min(1000 * 2^attempt, 5000)\<close> and another attempt while
  \<open>attempt < retries\<close>, and by \<open>return false\<close> otherwise.
\<close>

function save_loop ::
  "external_message \<Rightarrow> account \<Rightarrow> string \<Rightarrow> string \<Rightarrow> nat \<Rightarrow> nat \<Rightarrow> world \<Rightarrow> bool \<times> world" where
  "save_loop message acct uid sanitizedHtmlBody attempt retries w =
     (if attempt \<le> retries then
        (case save_attempt message acct uid sanitizedHtmlBody w of
           (Returned b, w1) \<Rightarrow> (b, w1)
         | (Thrown, w1) \<Rightarrow>
             if attempt < retries then
               save_loop message acct uid sanitizedHtmlBody (attempt + 1) retries
                 (w1\<lparr>delays := delays w1 @ [min (1000 * 2 ^ attempt) 5000]\<rparr>)
             else (False, w1))
      else (False, w))"
  by pat_completeness auto
termination
  by (relation "measure (\<lambda>(message, acct, uid, body, attempt, retries, w). Suc retries - attempt)")
    auto

definition saveMessageWithRetry ::
  "external_message \<Rightarrow> account \<Rightarrow> string \<Rightarrow> nat \<Rightarrow> world \<Rightarrow> bool \<times> world" where
  "saveMessageWithRetry message acct uid retries w =
     save_loop message acct uid (sanitizeHtml (xm_htmlBody message)) 0 retries w"

section \<open>The transporter cache: \<open>getOrCreateTransporter\<close>\<close>

text \<open>\<open>a || b\<close> on strings: the empty string is false.\<close>

definition js_or :: "string \<Rightarrow> string \<Rightarrow> string" where
  "js_or a b = (if a = [] then b else a)"

text \<open>
  The options handed to \<open>nodemailer.createTransport\<close>: \<open>smtpPort || 587\<close>,
  \<open>smtpSecure || false\<close>, \<open>username || emailAddress\<close>.
\<close>

definition createTransport :: "account \<Rightarrow> transporter" where
  "createTransport acct =
     \<lparr>tr_host = smtpHost acct,
      tr_port = (case smtpPort acct of None \<Rightarrow> 587 | Some p \<Rightarrow> if p = 0 then 587 else p),
      tr_secure = (case smtpSecure acct of None \<Rightarrow> False | Some b \<Rightarrow> b),
      tr_user = js_or (username acct) (emailAddress acct),
      tr_pass = password acct\<rparr>"

text \<open>
  The function is \<open>async\<close> and awaits once, at \<open>transporter.verify()\<close>. It is modelled
  in the two parts the event loop runs without interruption: from the call to the
  \<open>await\<close> (the cache test, the construction, the call of \<open>verify\<close>), and from the
  settled \<open>verify\<close> to the end (\<open>ok\<close> says whether it resolved).
\<close>

datatype getting = Got transporter | Awaiting transporter

definition getOrCreate_begin :: "account \<Rightarrow> world \<Rightarrow> getting \<times> world" where
  "getOrCreate_begin acct w =
     (case transporterCache w (acc_id acct) of
        Some t \<Rightarrow> (Got t, w)
      | None \<Rightarrow> (Awaiting (createTransport acct), w\<lparr>verifyCalls := Suc (verifyCalls w)\<rparr>))"

definition getOrCreate_resume ::
  "account \<Rightarrow> transporter \<Rightarrow> bool \<Rightarrow> world \<Rightarrow> (string + transporter) \<times> world" where
  "getOrCreate_resume acct t ok w =
     (if ok then
        (Inr t, w\<lparr>transporterCache := (transporterCache w)(acc_id acct \<mapsto> t),
                  verified := verified w @ [t]\<rparr>)
      else (Inl ''SMTP connection verification failed.'', w))"

text \<open>One call run alone, from its start to its end.\<close>

definition getOrCreateTransporter ::
  "bool \<Rightarrow> account \<Rightarrow> world \<Rightarrow> (string + transporter) \<times> world" where
  "getOrCreateTransporter ok acct w =
     (case getOrCreate_begin acct w of
        (Got t, w1) \<Rightarrow> (Inr t, w1)
      | (Awaiting t, w1) \<Rightarrow> getOrCreate_resume acct t ok w1)"

text \<open>Every cached transporter has passed \<open>verify\<close>.\<close>

definition cache_verified :: "world \<Rightarrow> bool" where
  "cache_verified w = (\<forall>k t. transporterCache w k = Some t \<longrightarrow> t \<in> set (verified w))"

subsection \<open>Several calls in flight\<close>

text \<open>
  Calls of \<open>getOrCreateTransporter\<close> that are in flight together: each is waiting to
  start, awaiting its \<open>verify\<close>, or finished. The event loop runs one part of one call
  at a time; a schedule is the list of the parts it runs.
\<close>

datatype caller = Waiting account | Verifying account transporter | Finished "string + transporter"

datatype event = Begin nat | Resume nat bool

fun step :: "event \<Rightarrow> caller list \<times> world \<Rightarrow> caller list \<times> world" where
  "step (Begin i) (cs, w) =
     (if i < length cs then
        (case cs ! i of
           Waiting acct \<Rightarrow>
             (case getOrCreate_begin acct w of
                (Got t, w1) \<Rightarrow> (cs[i := Finished (Inr t)], w1)
              | (Awaiting t, w1) \<Rightarrow> (cs[i := Verifying acct t], w1))
         | Verifying acct t \<Rightarrow> (cs, w)
         | Finished r \<Rightarrow> (cs, w))
      else (cs, w))"
| "step (Resume i ok) (cs, w) =
     (if i < length cs then
        (case cs ! i of
           Waiting acct \<Rightarrow> (cs, w)
         | Verifying acct t \<Rightarrow>
             (case getOrCreate_resume acct t ok w of (r, w1) \<Rightarrow> (cs[i := Finished r], w1))
         | Finished r \<Rightarrow> (cs, w))
      else (cs, w))"

definition run :: "event list \<Rightarrow> caller list \<times> world \<Rightarrow> caller list \<times> world" where
  "run es st = fold step es st"

section \<open>Sending: \<open>sendFromAccount\<close> and \<open>getDefaultAccount\<close>\<close>

record upload =
  originalname :: string
  up_size :: nat
  mimetype :: string
  buffer :: string

text \<open>The interface \<open>EmailData\<close>; the headers are left out, no sender of the service reads them.\<close>

record email_data =
  ed_to :: "string list"
  ed_cc :: "string list"
  ed_bcc :: "string list"
  ed_subject :: string
  ed_htmlBody :: string
  ed_textBody :: string
  ed_attachments :: "upload list"

text \<open>
  An awaited call of a collaborator outside this code: it resolves with a value, or it
  rejects; \<open>Rejects (Some m)\<close> is an \<open>Error\<close> with message \<open>m\<close>, \<open>Rejects None\<close> any
  other thrown value.
\<close>

datatype 'a ext = Resolves 'a | Rejects "string option"

record rate_check =
  allowed :: bool
  reason :: string
  resetAt :: nat
  remaining :: nat

record spam_check =
  score :: int
  issues :: "string list"
  recommendations :: "string list"

text \<open>
  The collaborators whose code is outside this development, taken as parameters: the
  deliverability service and the rate limiter read by the route (functions that return,
  with the spam score an integer), the clock (one reading for the whole request), the
  providers' senders, the outcome of \<open>verify\<close> and of \<open>sendMail\<close>, and what a failed
  database call throws.
\<close>

record env =
  validateRecipientEmail :: "string \<Rightarrow> bool"
  canSendEmail :: "string \<Rightarrow> string \<Rightarrow> rate_check"
  checkSpamScore :: "string \<Rightarrow> string \<Rightarrow> string \<Rightarrow> string \<Rightarrow> spam_check"
  sanitizeHtmlForEmail :: "string \<Rightarrow> string"
  now :: nat
  toBase64 :: "string \<Rightarrow> string"
  sendGmailMessage :: "account \<Rightarrow> email_data \<Rightarrow> send_result ext"
  sendOutlookMessage :: "account \<Rightarrow> email_data \<Rightarrow> send_result ext"
  verify :: "transporter \<Rightarrow> bool"
  sendMail :: "transporter \<Rightarrow> email_data \<Rightarrow> string ext"
  dbError :: "string option"

text \<open>\<open>error instanceof Error ? error.message : fallback\<close>\<close>

definition catch_message :: "string option \<Rightarrow> string \<Rightarrow> string" where
  "catch_message e fallback = (case e of Some m \<Rightarrow> m | None \<Rightarrow> fallback)"

definition failure :: "string \<Rightarrow> send_result" where
  "failure e = \<lparr>success = False, sr_messageId = None, sr_error = Some e\<rparr>"

definition sendViaGmail :: "env \<Rightarrow> account \<Rightarrow> email_data \<Rightarrow> send_result" where
  "sendViaGmail e acct emailData =
     (case sendGmailMessage e acct emailData of
        Resolves r \<Rightarrow> r
      | Rejects err \<Rightarrow> failure (catch_message err ''Gmail send failed''))"

definition sendViaOutlook :: "env \<Rightarrow> account \<Rightarrow> email_data \<Rightarrow> send_result" where
  "sendViaOutlook e acct emailData =
     (case sendOutlookMessage e acct emailData of
        Resolves r \<Rightarrow> r
      | Rejects err \<Rightarrow> failure (catch_message err ''Outlook send failed''))"

definition sendViaSMTP :: "env \<Rightarrow> account \<Rightarrow> email_data \<Rightarrow> world \<Rightarrow> send_result \<times> world" where
  "sendViaSMTP e acct emailData w =
     (case getOrCreateTransporter (verify e (createTransport acct)) acct w of
        (Inl err, w1) \<Rightarrow> (failure err, w1)
      | (Inr t, w1) \<Rightarrow>
          (case sendMail e t emailData of
             Resolves mid \<Rightarrow> (\<lparr>success = True, sr_messageId = Some mid, sr_error = None\<rparr>, w1)
           | Rejects err \<Rightarrow> (failure (catch_message err ''SMTP send failed''), w1)))"

text \<open>
  \<open>sendFromAccount\<close>: every exception is caught, so a result is always returned. The
  result is also appended to \<open>sendLog\<close>.
\<close>

definition sendFromAccount :: "env \<Rightarrow> nat \<Rightarrow> email_data \<Rightarrow> world \<Rightarrow> send_result \<times> world" where
  "sendFromAccount e accountId emailData w =
     (let (f, w1) = db_call w;
          (r, w2) =
            (if f then (failure (catch_message (dbError e) ''Failed to send email''), w1)
             else (case find (\<lambda>a. acc_id a = accountId) (accounts w1) of
                     None \<Rightarrow> (failure ''Account not found or inactive'', w1)
                   | Some acct \<Rightarrow>
                       if \<not> isActive acct then (failure ''Account not found or inactive'', w1)
                       else if provider acct = ''gmail'' then (sendViaGmail e acct emailData, w1)
                       else if provider acct = ''outlook'' then
                         (sendViaOutlook e acct emailData, w1)
                       else if provider acct = ''smtp'' \<or> provider acct = ''imap'' then
                         sendViaSMTP e acct emailData w1
                       else (failure (''Unsupported provider: '' @ provider acct), w1)))
      in (r, w2\<lparr>sendLog := sendLog w2 @ [r]\<rparr>))"

text \<open>
  \<open>orderBy: [desc(isDefault), desc(createdAt)]\<close>: \<open>precedes a b\<close> when row \<open>a\<close> comes
  strictly before row \<open>b\<close>. \<open>first_row\<close> is the row \<open>findFirst\<close> returns; among rows
  that the order does not separate it is the earliest in the table.
\<close>

definition precedes :: "account \<Rightarrow> account \<Rightarrow> bool" where
  "precedes a b =
     ((isDefault a \<and> \<not> isDefault b) \<or> (isDefault a = isDefault b \<and> createdAt b < createdAt a))"

fun first_row :: "account list \<Rightarrow> account option" where
  "first_row [] = None"
| "first_row (a # rows) = Some (fold (\<lambda>b best. if precedes b best then b else best) rows a)"

text \<open>\<open>getDefaultAccount\<close>: a failed query is caught and \<open>null\<close> is returned.\<close>

definition getDefaultAccount :: "string \<Rightarrow> world \<Rightarrow> account option \<times> world" where
  "getDefaultAccount uid w =
     (let (f, w1) = db_call w in
      if f then (None, w1)
      else (first_row (filter (\<lambda>a. userId a = uid) (accounts w1)), w1))"

section \<open>The route \<open>POST /emails/send\<close>\<close>

text \<open>
  A recipient field of the request body is an array or a single value; a missing or
  empty single value is the empty string.
\<close>

datatype recipients = Many "string list" | One string

record request =
  req_to :: recipients
  req_cc :: recipients
  req_bcc :: recipients
  req_subject :: string
  req_htmlBody :: string
  req_textBody :: string
  req_threadId :: "nat option"
  req_accountId :: "nat option"
  user_id :: string
  user_email :: string
  req_files :: "upload list"

datatype response =
    InvalidRecipients "string list"
  | NoAccountConfigured
  | RateLimitExceeded string nat nat
  | DeliverabilityBlocked int "string list" "string list"
  | InsufficientContent
  | Created nat nat send_result
  | ServerError

fun status :: "response \<Rightarrow> nat" where
  "status (InvalidRecipients bad) = 400"
| "status NoAccountConfigured = 400"
| "status (RateLimitExceeded why reset left) = 429"
| "status (DeliverabilityBlocked sc iss recs) = 400"
| "status InsufficientContent = 400"
| "status (Created mid tid r) = 201"
| "status ServerError = 500"

text \<open>\<open>Array.isArray(to) ? to : [to]\<close>\<close>

definition toEmails_of :: "request \<Rightarrow> string list" where
  "toEmails_of req = (case req_to req of Many xs \<Rightarrow> xs | One x \<Rightarrow> [x])"

text \<open>\<open>Array.isArray(cc) ? cc : (cc ? [cc] : [])\<close>\<close>

definition optional_recipients :: "recipients \<Rightarrow> string list" where
  "optional_recipients r = (case r of Many xs \<Rightarrow> xs | One x \<Rightarrow> if x = [] then [] else [x])"

definition invalidRecipients_of :: "env \<Rightarrow> request \<Rightarrow> string list" where
  "invalidRecipients_of e req =
     filter (\<lambda>email. \<not> validateRecipientEmail e email)
       (toEmails_of req @ optional_recipients (req_cc req) @ optional_recipients (req_bcc req))"

text \<open>
  The sending account: the account named by the request that the user owns, or the
  user's default account. A failed query of the route itself is thrown.
\<close>

definition resolve_account :: "request \<Rightarrow> world \<Rightarrow> account option outcome \<times> world" where
  "resolve_account req w =
     (case req_accountId req of
        Some aid \<Rightarrow>
          (let (f, w1) = db_call w in
           if f then (Thrown, w1)
           else (Returned (find (\<lambda>a. acc_id a = aid \<and> userId a = user_id req) (accounts w1)), w1))
      | None \<Rightarrow> (case getDefaultAccount (user_id req) w of (r, w1) \<Rightarrow> (Returned r, w1)))"

definition sender_of :: "request \<Rightarrow> account \<Rightarrow> string" where
  "sender_of req acct = js_or (emailAddress acct) (user_email req)"

definition provider_of :: "account \<Rightarrow> string" where
  "provider_of acct = js_or (provider acct) ''smtp''"

definition spam_of :: "env \<Rightarrow> request \<Rightarrow> account \<Rightarrow> spam_check" where
  "spam_of e req acct =
     checkSpamScore e (js_or (req_subject req) []) (js_or (req_htmlBody req) [])
       (js_or (req_textBody req) []) (sender_of req acct)"

text \<open>\<open>textBody || sanitizedHtmlBody.replace(/<[^>]*>/g, '').trim()\<close>\<close>

definition finalTextBody_of :: "env \<Rightarrow> request \<Rightarrow> string" where
  "finalTextBody_of e req =
     js_or (req_textBody req)
       (trim (replace_all match_tag 0 (sanitizeHtmlForEmail e (js_or (req_htmlBody req) []))))"

definition outbound_thread_values :: "env \<Rightarrow> request \<Rightarrow> account \<Rightarrow> thread" where
  "outbound_thread_values e req acct =
     \<lparr>thr_id = 0, thr_subject = req_subject req,
      participantEmails = sender_of req acct # toEmails_of req,
      lastMessageAt = now e, messageCount = 0, thr_createdBy = user_id req,
      externalThreadId = None\<rparr>"

definition outbound_message_values ::
  "env \<Rightarrow> request \<Rightarrow> account \<Rightarrow> string \<Rightarrow> string \<Rightarrow> nat \<Rightarrow> message" where
  "outbound_message_values e req acct sanitizedHtmlBody finalTextBody tid =
     \<lparr>msg_id = 0, threadId = tid, emailAccountId = acc_id acct, externalMessageId = None,
      fromEmail = sender_of req acct, toEmails = toEmails_of req,
      ccEmails = optional_recipients (req_cc req),
      bccEmails = optional_recipients (req_bcc req),
      subject = req_subject req, htmlBody = sanitizedHtmlBody, textBody = finalTextBody,
      messageType = ''sent'', isRead = False, sentAt = now e, createdBy = user_id req\<rparr>"

definition outbound_email_data :: "request \<Rightarrow> string \<Rightarrow> string \<Rightarrow> email_data" where
  "outbound_email_data req sanitizedHtmlBody finalTextBody =
     \<lparr>ed_to = toEmails_of req, ed_cc = optional_recipients (req_cc req),
      ed_bcc = optional_recipients (req_bcc req), ed_subject = req_subject req,
      ed_htmlBody = sanitizedHtmlBody, ed_textBody = finalTextBody,
      ed_attachments = req_files req\<rparr>"

text \<open>The thread of the message: the one the request names, or a new one.\<close>

definition ensure_thread :: "env \<Rightarrow> request \<Rightarrow> account \<Rightarrow> world \<Rightarrow> nat outcome \<times> world" where
  "ensure_thread e req acct w =
     (case req_threadId req of
        Some tid \<Rightarrow> (Returned tid, w)
      | None \<Rightarrow>
          (case insert_thread (outbound_thread_values e req acct) w of
             (Thrown, w1) \<Rightarrow> (Thrown, w1)
           | (Returned newThread, w1) \<Rightarrow> (Returned (thr_id newThread), w1)))"

definition insert_attachments :: "env \<Rightarrow> request \<Rightarrow> nat \<Rightarrow> world \<Rightarrow> unit outcome \<times> world" where
  "insert_attachments e req mid w =
     (if req_files req = [] then (Returned (), w)
      else (let (f, w1) = db_call w in
            if f then (Thrown, w1)
            else (Returned (),
                  w1\<lparr>attachments := attachments w1 @
                       map (\<lambda>file. \<lparr>att_messageId = mid, fileName = originalname file,
                                    fileSize = up_size file, mimeType = mimetype file,
                                    fileContent = toBase64 e (buffer file)\<rparr>)
                         (req_files req)\<rparr>)))"

text \<open>
  \<open>db.update(emailThreads).set({lastMessageAt, messageCount: messageCount + 1})
  .where(eq(emailThreads.id, finalThreadId))\<close>
\<close>

definition update_thread :: "env \<Rightarrow> nat \<Rightarrow> world \<Rightarrow> unit outcome \<times> world" where
  "update_thread e tid w =
     (let (f, w1) = db_call w in
      if f then (Thrown, w1)
      else (Returned (),
            w1\<lparr>threads :=
                 map (\<lambda>t. if thr_id t = tid
                          then t\<lparr>lastMessageAt := now e, messageCount := messageCount t + 1\<rparr>
                          else t)
                   (threads w1)\<rparr>))"

text \<open>
  After the send: on success the rate limiter is told (\<open>recordEmailSent\<close> with the user
  and the provider), on failure a warning is logged.
\<close>

definition after_send :: "request \<Rightarrow> string \<Rightarrow> send_result \<Rightarrow> world \<Rightarrow> world" where
  "after_send req prov sendResult w =
     (if success sendResult then
        w\<lparr>logged := logged w @ [Info ''Email sent successfully''],
          recorded := recorded w @ [(user_id req, prov)]\<rparr>
      else w\<lparr>logged := logged w @ [Warn ''Email sending failed, but message saved:'']\<rparr>)"

text \<open>
  The second half of the handler, from the creation of the thread to the response. An
  exception anywhere is caught by the handler's \<open>catch\<close>, which answers 500.
\<close>

definition persist_and_send ::
  "env \<Rightarrow> request \<Rightarrow> account \<Rightarrow> string \<Rightarrow> string \<Rightarrow> world \<Rightarrow> response \<times> world" where
  "persist_and_send e req acct sanitizedHtmlBody finalTextBody w =
     (case ensure_thread e req acct w of
        (Thrown, w1) \<Rightarrow> (ServerError, w1)
      | (Returned finalThreadId, w1) \<Rightarrow>
          (case insert_message
                  (outbound_message_values e req acct sanitizedHtmlBody finalTextBody
                     finalThreadId) w1 of
             (Thrown, w2) \<Rightarrow> (ServerError, w2)
           | (Returned msg, w2) \<Rightarrow>
               (case insert_attachments e req (msg_id msg) w2 of
                  (Thrown, w3) \<Rightarrow> (ServerError, w3)
                | (Returned u, w3) \<Rightarrow>
                    (case sendFromAccount e (acc_id acct)
                            (outbound_email_data req sanitizedHtmlBody finalTextBody) w3 of
                       (sendResult, w4) \<Rightarrow>
                         (case update_thread e finalThreadId
                                 (after_send req (provider_of acct) sendResult w4) of
                            (Thrown, w5) \<Rightarrow> (ServerError, w5)
                          | (Returned u2, w5) \<Rightarrow>
                              (Created (msg_id msg) finalThreadId sendResult, w5))))))"

text \<open>
  \<open>if (spamCheck.score >= 5)\<close>: two warnings are logged, the score and the issues.
\<close>

definition warn_moderate :: "spam_check \<Rightarrow> world \<Rightarrow> world" where
  "warn_moderate spamCheck w =
     (if 5 \<le> score spamCheck
      then w\<lparr>logged := logged w @ [WarnScore (score spamCheck), WarnIssues (issues spamCheck)]\<rparr>
      else w)"

text \<open>
  The checks after the account is known: the rate limit, the spam score (blocked from 7,
  a warning logged from 5), the text body (at least 10 characters).
\<close>

definition guarded_send :: "env \<Rightarrow> request \<Rightarrow> account \<Rightarrow> world \<Rightarrow> response \<times> world" where
  "guarded_send e req acct w =
     (let rateLimitCheck = canSendEmail e (user_id req) (provider_of acct) in
      if \<not> allowed rateLimitCheck then
        (RateLimitExceeded (reason rateLimitCheck) (resetAt rateLimitCheck)
           (remaining rateLimitCheck), w)
      else
        (let spamCheck = spam_of e req acct in
         if 7 \<le> score spamCheck then
           (DeliverabilityBlocked (score spamCheck) (issues spamCheck)
              (recommendations spamCheck), w)
         else
           (let w1 = warn_moderate spamCheck w;
                sanitizedHtmlBody = sanitizeHtmlForEmail e (js_or (req_htmlBody req) []);
                finalTextBody = finalTextBody_of e req
            in if finalTextBody = [] \<or> length finalTextBody < 10 then (InsufficientContent, w1)
               else persist_and_send e req acct sanitizedHtmlBody finalTextBody w1)))"

definition post_emails_send :: "env \<Rightarrow> request \<Rightarrow> world \<Rightarrow> response \<times> world" where
  "post_emails_send e req w =
     (let invalidRecipients = invalidRecipients_of e req in
      if invalidRecipients \<noteq> [] then (InvalidRecipients invalidRecipients, w)
      else (case resolve_account req w of
              (Thrown, w1) \<Rightarrow> (ServerError, w1)
            | (Returned None, w1) \<Rightarrow> (NoAccountConfigured, w1)
            | (Returned (Some sendingAccount), w1) \<Rightarrow> guarded_send e req sendingAccount w1))"

section \<open>Example inputs\<close>

definition empty_world :: world where
  "empty_world =
     \<lparr>accounts = [], threads = [], messages = [], attachments = [], nextId = 1, faults = [],
      delays = [], transporterCache = Map.empty, verifyCalls = 0, verified = [],
      sendLog = [], recorded = [], logged = []\<rparr>"

definition gmail_account :: account where
  "gmail_account =
     \<lparr>acc_id = 7, userId = ''u1'', provider = ''gmail'', emailAddress = ''me@corp.io'',
      accountName = ''Me'', isDefault = False, isActive = True, createdAt = 5,
      smtpHost = [], smtpPort = None, smtpSecure = None, username = [], password = []\<rparr>"

definition smtp_account :: account where
  "smtp_account =
     \<lparr>acc_id = 8, userId = ''u1'', provider = ''smtp'', emailAddress = ''me@corp.io'',
      accountName = ''Me'', isDefault = True, isActive = True, createdAt = 6,
      smtpHost = ''mail.corp.io'', smtpPort = None, smtpSecure = None, username = [],
      password = ''secret''\<rparr>"

definition inbound_T1 :: "string \<Rightarrow> external_message" where
  "inbound_T1 mid =
     \<lparr>xm_externalMessageId = mid, xm_externalThreadId = Some ''T1'', xm_subject = ''Hello'',
      xm_from = ''you@else.org'', xm_to = [''me@corp.io''], xm_cc = None, xm_bcc = None,
      xm_htmlBody = ''<p>Hello</p>'', xm_textBody = ''Hello'', xm_date = 10\<rparr>"

text \<open>
  A stand-in for the collaborators: every recipient is valid, the rate limiter allows,
  the spam score is the length of the subject, \<open>sanitizeHtmlForEmail\<close> returns its
  argument, Gmail accepts, \<open>verify\<close> and \<open>sendMail\<close> succeed.
\<close>

definition example_env :: env where
  "example_env =
     \<lparr>validateRecipientEmail = (\<lambda>email. True),
      canSendEmail = (\<lambda>u p. \<lparr>allowed = True, reason = [], resetAt = 0, remaining = 9\<rparr>),
      checkSpamScore =
        (\<lambda>subj html text sender.
           \<lparr>score = int (length subj), issues = [''subject: '' @ subj], recommendations = []\<rparr>),
      sanitizeHtmlForEmail = (\<lambda>html. html),
      now = 100,
      toBase64 = (\<lambda>bytes. bytes),
      sendGmailMessage =
        (\<lambda>acct d. Resolves \<lparr>success = True, sr_messageId = Some ''g-1'', sr_error = None\<rparr>),
      sendOutlookMessage = (\<lambda>acct d. Rejects None),
      verify = (\<lambda>t. True),
      sendMail = (\<lambda>t d. Resolves ''s-1''),
      dbError = Some ''connection lost''\<rparr>"

definition example_request :: request where
  "example_request =
     \<lparr>req_to = Many [''you@else.org''], req_cc = Many [], req_bcc = Many [],
      req_subject = ''Hi'', req_htmlBody = ''<p>hi</p>'', req_textBody = [],
      req_threadId = None, req_accountId = None, user_id = ''u1'',
      user_email = ''u1@corp.io'', req_files = []\<rparr>"

text \<open>
  A request with enough text, a store with two accounts of user \<open>u1\<close> (the SMTP account
  is the default one), collaborators whose \<open>sendMail\<close> is rejected by the provider, and
  an account that is not active.
\<close>

definition good_request :: request where
  "good_request = example_request\<lparr>req_htmlBody := ''<p>Hello there, how are you?</p>''\<rparr>"

definition two_accounts :: world where
  "two_accounts = empty_world\<lparr>accounts := [gmail_account, smtp_account]\<rparr>"

definition rejecting_env :: env where
  "rejecting_env = example_env\<lparr>sendMail := (\<lambda>t d. Rejects (Some ''550 rejected''))\<rparr>"

definition inactive_account :: account where
  "inactive_account = gmail_account\<lparr>acc_id := 9, isActive := False, createdAt := 9\<rparr>"

section \<open>Auxiliary facts\<close>

lemma db_call_tables [simp]:
  "accounts (snd (db_call w)) = accounts w" "threads (snd (db_call w)) = threads w"
  "messages (snd (db_call w)) = messages w" "attachments (snd (db_call w)) = attachments w"
  "nextId (snd (db_call w)) = nextId w"
  "transporterCache (snd (db_call w)) = transporterCache w"
  "verifyCalls (snd (db_call w)) = verifyCalls w" "verified (snd (db_call w)) = verified w"
  "sendLog (snd (db_call w)) = sendLog w" "recorded (snd (db_call w)) = recorded w"
  "logged (snd (db_call w)) = logged w" "delays (snd (db_call w)) = delays w"
  by (simp_all add: db_call_def split: list.split)

lemma replicate_front_update:
  assumes "k < n"
  shows "(replicate k v @ replicate (n - k) u)[k := v] =
    replicate (Suc k) v @ replicate (n - Suc k) u"
proof -
  from assms have "n - k = Suc (n - Suc k)" by simp
  then have "replicate (n - k) u = u # replicate (n - Suc k) u" by simp
  then show ?thesis
    by (simp add: list_update_append replicate_app_Cons_same)
qed

lemma replicate_front_nth:
  "k < n \<Longrightarrow> (replicate k v @ replicate (n - k) u) ! k = u"
  by (simp add: nth_append)

text \<open>
  The first \<open>k\<close> of \<open>n\<close> callers start, one after the other, and no \<open>verify\<close> has
  settled yet: with no entry in the cache each of them constructs a transporter and
  calls \<open>verify\<close>.
\<close>

lemma begins_miss:
  assumes miss: "transporterCache w (acc_id acct) = None"
  shows "k \<le> n \<Longrightarrow>
    run (map Begin [0..<k]) (replicate n (Waiting acct), w) =
      (replicate k (Verifying acct (createTransport acct)) @ replicate (n - k) (Waiting acct),
       w\<lparr>verifyCalls := verifyCalls w + k\<rparr>)"
proof (induction k)
  case 0
  show ?case by (simp add: run_def)
next
  case (Suc k)
  then have k: "k < n" by simp
  have "run (map Begin [0..<Suc k]) (replicate n (Waiting acct), w) =
      step (Begin k) (run (map Begin [0..<k]) (replicate n (Waiting acct), w))"
    by (simp add: run_def)
  also have "\<dots> = step (Begin k)
      (replicate k (Verifying acct (createTransport acct)) @ replicate (n - k) (Waiting acct),
       w\<lparr>verifyCalls := verifyCalls w + k\<rparr>)"
    using Suc.IH k by simp
  also have "\<dots> = (replicate (Suc k) (Verifying acct (createTransport acct)) @
        replicate (n - Suc k) (Waiting acct), w\<lparr>verifyCalls := verifyCalls w + Suc k\<rparr>)"
    using k miss
      replicate_front_update [OF k, of "Verifying acct (createTransport acct)" "Waiting acct"]
    by (simp add: replicate_front_nth getOrCreate_begin_def del: replicate_Suc)
  finally show ?case .
qed

lemma begins_hit:
  assumes hit: "transporterCache w (acc_id acct) = Some t"
  shows "k \<le> n \<Longrightarrow>
    run (map Begin [0..<k]) (replicate n (Waiting acct), w) =
      (replicate k (Finished (Inr t)) @ replicate (n - k) (Waiting acct), w)"
proof (induction k)
  case 0
  show ?case by (simp add: run_def)
next
  case (Suc k)
  then have k: "k < n" by simp
  have "run (map Begin [0..<Suc k]) (replicate n (Waiting acct), w) =
      step (Begin k) (run (map Begin [0..<k]) (replicate n (Waiting acct), w))"
    by (simp add: run_def)
  also have "\<dots> = step (Begin k)
      (replicate k (Finished (Inr t)) @ replicate (n - k) (Waiting acct), w)"
    using Suc.IH k by simp
  also have "\<dots> = (replicate (Suc k) (Finished (Inr t)) @ replicate (n - Suc k) (Waiting acct), w)"
    using k hit replicate_front_update [OF k, of "Finished (Inr t)" "Waiting acct"]
    by (simp add: replicate_front_nth getOrCreate_begin_def del: replicate_Suc)
  finally show ?case .
qed

lemma db_call_result:
  "db_call w = (f, w1) \<Longrightarrow>
     accounts w1 = accounts w \<and> threads w1 = threads w \<and> messages w1 = messages w
     \<and> attachments w1 = attachments w \<and> nextId w1 = nextId w
     \<and> transporterCache w1 = transporterCache w \<and> verifyCalls w1 = verifyCalls w
     \<and> verified w1 = verified w \<and> sendLog w1 = sendLog w \<and> recorded w1 = recorded w
     \<and> logged w1 = logged w \<and> delays w1 = delays w"
  by (auto simp: db_call_def split: list.splits)

lemma find_linked_thread_tables:
  "find_linked_thread m w = (r, w') \<Longrightarrow>
     messages w' = messages w \<and> threads w' = threads w \<and> nextId w' = nextId w"
  by (auto simp: find_linked_thread_def db_call_def Let_def
      split: option.splits if_splits list.splits prod.splits)

lemma insert_thread_messages:
  "insert_thread vals w = (r, w') \<Longrightarrow> messages w' = messages w"
  by (auto simp: insert_thread_def db_call_def Let_def split: if_splits list.splits prod.splits)

lemma insert_message_cases:
  "insert_message vals w = (r, w') \<Longrightarrow>
     (r = Thrown \<and> messages w' = messages w \<and> threads w' = threads w)
     \<or> (r = Returned (vals\<lparr>msg_id := nextId w\<rparr>)
        \<and> messages w' = messages w @ [vals\<lparr>msg_id := nextId w\<rparr>] \<and> threads w' = threads w)"
  by (auto simp: insert_message_def db_call_def Let_def split: if_splits list.splits prod.splits)

text \<open>One attempt: it skips, or throws without touching the messages, or appends one row.\<close>

lemma save_attempt_cases:
  assumes "save_attempt m acct uid body w = (r, w')"
  shows "(r = Returned False \<and> messages w' = messages w \<and> threads w' = threads w
            \<and> find (\<lambda>x. externalMessageId x = Some (xm_externalMessageId m)) (messages w) \<noteq> None)
         \<or> (r = Thrown \<and> messages w' = messages w
            \<and> (find (\<lambda>x. externalMessageId x = Some (xm_externalMessageId m)) (messages w) \<noteq> None
                 \<longrightarrow> threads w' = threads w))
         \<or> (r = Returned True
            \<and> find (\<lambda>x. externalMessageId x = Some (xm_externalMessageId m)) (messages w) = None
            \<and> (\<exists>tid k. messages w' =
                  messages w @ [(inbound_message_values m acct uid body tid)\<lparr>msg_id := k\<rparr>]))"
proof (cases "fst (db_call w)")
  case True
  with assms show ?thesis
    by (auto simp: save_attempt_def split: prod.splits dest: db_call_result)
next
  case nofault: False
  obtain w1 where w1: "db_call w = (False, w1)"
    using nofault by (cases "db_call w") auto
  have t1: "messages w1 = messages w" "threads w1 = threads w"
    using db_call_tables(2,3) [of w] w1 by simp_all
  show ?thesis
  proof (cases "find (\<lambda>x. externalMessageId x = Some (xm_externalMessageId m)) (messages w)")
    case (Some existing)
    with assms w1 t1 show ?thesis
      by (auto simp: save_attempt_def)
  next
    case None
    obtain r2 w2 where l: "find_linked_thread m w1 = (r2, w2)"
      by (cases "find_linked_thread m w1")
    have t2: "messages w2 = messages w"
      using find_linked_thread_tables [OF l] t1 by simp
    show ?thesis
    proof (cases r2)
      case Thrown
      with assms w1 t1 t2 None l show ?thesis
        by (auto simp: save_attempt_def)
    next
      case (Returned existingThread)
      obtain r3 w3 where th: "(case existingThread of Some t \<Rightarrow> (Returned t, w2)
            | None \<Rightarrow> insert_thread (inbound_thread_values m uid) w2) = (r3, w3)"
        by (cases "(case existingThread of Some t \<Rightarrow> (Returned t, w2)
            | None \<Rightarrow> insert_thread (inbound_thread_values m uid) w2)")
      have t3: "messages w3 = messages w"
        using th t2 insert_thread_messages by (cases existingThread) auto
      show ?thesis
      proof (cases r3)
        case Thrown
        with assms w1 t1 t3 None l Returned th show ?thesis
          by (auto simp: save_attempt_def)
      next
        case (Returned t)
        obtain r4 w4 where im: "insert_message
            (inbound_message_values m acct uid body (thr_id t)) w3 = (r4, w4)"
          by (cases "insert_message (inbound_message_values m acct uid body (thr_id t)) w3")
        have res: "(r, w') = (case r4 of Returned x \<Rightarrow> (Returned True, w4) | Thrown \<Rightarrow> (Thrown, w4))"
          using assms w1 t1 None l \<open>r2 = Returned existingThread\<close> th Returned im
          by (simp add: save_attempt_def)
        show ?thesis
        proof (cases r4)
          case Thrown
          with res insert_message_cases [OF im] t3 None show ?thesis by auto
        next
          case r4: (Returned x)
          with insert_message_cases [OF im] t3
          have "messages w4 = messages w @
              [(inbound_message_values m acct uid body (thr_id t))\<lparr>msg_id := nextId w3\<rparr>]"
            by auto
          then have "\<exists>tid k. messages w4 = messages w @
              [(inbound_message_values m acct uid body tid)\<lparr>msg_id := k\<rparr>]"
            by blast
          with res r4 None show ?thesis by simp
        qed
      qed
    qed
  qed
qed

lemma save_loop_cases:
  "save_loop m acct uid body attempt retries w = (b, w') \<Longrightarrow>
     (\<not> b \<and> messages w' = messages w
        \<and> (find (\<lambda>x. externalMessageId x = Some (xm_externalMessageId m)) (messages w) \<noteq> None
              \<longrightarrow> threads w' = threads w))
     \<or> (b \<and> find (\<lambda>x. externalMessageId x = Some (xm_externalMessageId m)) (messages w) = None
        \<and> (\<exists>tid k. messages w' =
              messages w @ [(inbound_message_values m acct uid body tid)\<lparr>msg_id := k\<rparr>]))"
proof (induction m acct uid body attempt retries w arbitrary: b w' rule: save_loop.induct)
  case (1 m acct uid body attempt retries w)
  show ?case
  proof (cases "attempt \<le> retries")
    case False
    with "1.prems" show ?thesis by simp
  next
    case le: True
    obtain r w1 where a: "save_attempt m acct uid body w = (r, w1)"
      by (cases "save_attempt m acct uid body w")
    note c = save_attempt_cases [OF a]
    show ?thesis
    proof (cases r)
      case (Returned x)
      with "1.prems" le a c show ?thesis by auto
    next
      case Thrown
      with c have same: "messages w1 = messages w"
        "find (\<lambda>x. externalMessageId x = Some (xm_externalMessageId m)) (messages w) \<noteq> None
                 \<longrightarrow> threads w1 = threads w" by auto
      show ?thesis
      proof (cases "attempt < retries")
        case False
        with "1.prems" le a Thrown same show ?thesis by auto
      next
        case True
        let ?w2 = "w1\<lparr>delays := delays w1 @ [min (1000 * 2 ^ attempt) 5000]\<rparr>"
        from "1.prems" le a Thrown True
        have "save_loop m acct uid body (attempt + 1) retries ?w2 = (b, w')" by simp
        from "1.IH" [OF le a [symmetric] Thrown True this] same show ?thesis by simp
      qed
    qed
  qed
qed


lemma saveMessageWithRetry_cases:
  assumes "saveMessageWithRetry m acct uid retries w = (b, w')"
  shows "(\<not> b \<and> messages w' = messages w
        \<and> ((\<exists>x \<in> set (messages w). externalMessageId x = Some (xm_externalMessageId m))
              \<longrightarrow> threads w' = threads w))
     \<or> (b \<and> \<not> (\<exists>x \<in> set (messages w). externalMessageId x = Some (xm_externalMessageId m))
        \<and> (\<exists>tid k. messages w' = messages w @
              [(inbound_message_values m acct uid (sanitizeHtml (xm_htmlBody m)) tid)
                 \<lparr>msg_id := k\<rparr>]))"
  using save_loop_cases [OF assms [unfolded saveMessageWithRetry_def]]
  by (simp add: find_None_iff) blast

subsection \<open>The two replacements of \<open>sanitizeHtml\<close>\<close>

lemma to_lower_ascii [simp]:
  "to_lower (CHR ''<'') = CHR ''<''" "to_lower (CHR ''>'') = CHR ''>''"
  "to_lower (CHR ''/'') = CHR ''/''"
  "to_lower (CHR ''s'') = CHR ''s''" "to_lower (CHR ''c'') = CHR ''c''"
  "to_lower (CHR ''r'') = CHR ''r''" "to_lower (CHR ''i'') = CHR ''i''"
  "to_lower (CHR ''p'') = CHR ''p''" "to_lower (CHR ''t'') = CHR ''t''"
  "to_lower (CHR ''o'') = CHR ''o''" "to_lower (CHR ''n'') = CHR ''n''"
  by (simp_all add: to_lower_def is_upper_def)

lemma not_word_ascii [simp]:
  "\<not> is_word (CHR ''>'')" "\<not> is_word (CHR ''='')" "\<not> is_word (CHR ''<'')"
  by (simp_all add: is_word_def is_upper_def is_lower_def is_digit_def)




















subsection \<open>The first row of an ordered query\<close>

lemma precedes_step: "\<not> precedes b r \<Longrightarrow> precedes r' r \<Longrightarrow> \<not> precedes b r'"
  by (auto simp: precedes_def)

lemma precedes_irrefl: "\<not> precedes r r"
  by (simp add: precedes_def)

lemma fold_first:
  "(\<forall>b \<in> seen. \<not> precedes b a) \<Longrightarrow> a \<in> seen \<Longrightarrow>
   fold (\<lambda>b best. if precedes b best then b else best) rows a \<in> seen \<union> set rows
   \<and> (\<forall>b \<in> seen \<union> set rows.
         \<not> precedes b (fold (\<lambda>b best. if precedes b best then b else best) rows a))"
proof (induction rows arbitrary: a seen)
  case Nil
  then show ?case by simp
next
  case (Cons x rows)
  let ?a' = "if precedes x a then x else a"
  have "\<forall>b \<in> insert x seen. \<not> precedes b ?a'"
  proof
    fix b
    assume b: "b \<in> insert x seen"
    show "\<not> precedes b ?a'"
    proof (cases "precedes x a")
      case True
      show ?thesis
      proof (cases "b = x")
        case True
        with \<open>precedes x a\<close> show ?thesis by (simp add: precedes_irrefl)
      next
        case False
        with b Cons.prems(1) have "\<not> precedes b a" by simp
        from precedes_step [OF this True] True show ?thesis by simp
      qed
    next
      case False
      with b Cons.prems(1) show ?thesis by auto
    qed
  qed
  moreover have "?a' \<in> insert x seen" using Cons.prems(2) by simp
  ultimately show ?case
    using Cons.IH [of "insert x seen" ?a'] by simp
qed

lemma first_row_Some:
  "first_row rows = Some r \<Longrightarrow> r \<in> set rows \<and> (\<forall>b \<in> set rows. \<not> precedes b r)"
proof (cases rows)
  case Nil
  then show "first_row rows = Some r \<Longrightarrow> ?thesis" by simp
next
  case (Cons a rest)
  assume "first_row rows = Some r"
  with Cons have r: "r = fold (\<lambda>b best. if precedes b best then b else best) rest a" by simp
  from fold_first [of "{a}" a rest] show ?thesis
    unfolding r Cons by (simp add: precedes_irrefl)
qed

lemma first_row_None: "first_row rows = None \<longleftrightarrow> rows = []"
  by (cases rows) simp_all

subsection \<open>The route, step by step\<close>

lemma db_call_nofault: "faults w = [] \<Longrightarrow> db_call w = (False, w)"
  by (simp add: db_call_def)

lemma db_call_faults_empty: "faults w = [] \<Longrightarrow> faults (snd (db_call w)) = []"
  by (simp add: db_call_def)

text \<open>What \<open>getOrCreateTransporter\<close> and the senders leave as it is.\<close>

lemma getOrCreateTransporter_frame:
  "getOrCreateTransporter ok acct w = (r, w') \<Longrightarrow>
     accounts w' = accounts w \<and> threads w' = threads w \<and> messages w' = messages w
     \<and> attachments w' = attachments w \<and> nextId w' = nextId w \<and> faults w' = faults w
     \<and> sendLog w' = sendLog w \<and> recorded w' = recorded w \<and> logged w' = logged w"
  by (auto simp: getOrCreateTransporter_def getOrCreate_begin_def getOrCreate_resume_def
      split: option.splits if_splits)

lemma sendViaSMTP_frame:
  assumes "sendViaSMTP e acct d w = (r, w')"
  shows "accounts w' = accounts w \<and> threads w' = threads w \<and> messages w' = messages w
     \<and> attachments w' = attachments w \<and> nextId w' = nextId w \<and> faults w' = faults w
     \<and> sendLog w' = sendLog w \<and> recorded w' = recorded w \<and> logged w' = logged w"
proof -
  obtain g w1 where g: "getOrCreateTransporter (verify e (createTransport acct)) acct w = (g, w1)"
    by (cases "getOrCreateTransporter (verify e (createTransport acct)) acct w")
  from assms g have "w' = w1"
    by (auto simp: sendViaSMTP_def split: sum.splits ext.splits)
  with getOrCreateTransporter_frame [OF g] show ?thesis by simp
qed

lemma sendFromAccount_frame:
  assumes "sendFromAccount e accountId d w = (r, w')"
  shows "accounts w' = accounts w \<and> threads w' = threads w \<and> messages w' = messages w
     \<and> attachments w' = attachments w \<and> nextId w' = nextId w
     \<and> faults w' = faults (snd (db_call w))
     \<and> sendLog w' = sendLog w @ [r] \<and> recorded w' = recorded w \<and> logged w' = logged w"
proof -
  obtain f w1 where c: "db_call w = (f, w1)" by (cases "db_call w")
  note t = db_call_result [OF c]
  define inner where "inner =
    (if f then (failure (catch_message (dbError e) ''Failed to send email''), w1)
     else (case find (\<lambda>a. acc_id a = accountId) (accounts w1) of
             None \<Rightarrow> (failure ''Account not found or inactive'', w1)
           | Some acct \<Rightarrow>
               if \<not> isActive acct then (failure ''Account not found or inactive'', w1)
               else if provider acct = ''gmail'' then (sendViaGmail e acct d, w1)
               else if provider acct = ''outlook'' then (sendViaOutlook e acct d, w1)
               else if provider acct = ''smtp'' \<or> provider acct = ''imap'' then
                 sendViaSMTP e acct d w1
               else (failure (''Unsupported provider: '' @ provider acct), w1)))"
  obtain r2 w2 where i: "inner = (r2, w2)" by (cases inner)
  have fr: "accounts w2 = accounts w1 \<and> threads w2 = threads w1 \<and> messages w2 = messages w1
     \<and> attachments w2 = attachments w1 \<and> nextId w2 = nextId w1 \<and> faults w2 = faults w1
     \<and> sendLog w2 = sendLog w1 \<and> recorded w2 = recorded w1 \<and> logged w2 = logged w1"
    using i sendViaSMTP_frame unfolding inner_def
    by (auto split: if_splits option.splits)
  from assms c i have "r = r2 \<and> w' = w2\<lparr>sendLog := sendLog w2 @ [r2]\<rparr>"
    by (auto simp: sendFromAccount_def inner_def [symmetric])
  with fr t c show ?thesis by simp
qed


text \<open>What the database steps of the route leave as they are.\<close>

lemma insert_thread_frame:
  assumes "insert_thread vals w = (r, w')"
  shows "accounts w' = accounts w \<and> messages w' = messages w \<and> attachments w' = attachments w
     \<and> sendLog w' = sendLog w \<and> recorded w' = recorded w \<and> logged w' = logged w
     \<and> (faults w = [] \<longrightarrow> faults w' = [] \<and> (\<exists>t. r = Returned t))"
proof -
  obtain f w1 where c: "db_call w = (f, w1)" by (cases "db_call w")
  note t = db_call_result [OF c]
  have nf: "faults w = [] \<longrightarrow> \<not> f \<and> faults w1 = []"
    using c by (auto simp: db_call_def)
  show ?thesis
  proof (cases f)
    case True
    with assms c t nf show ?thesis by (auto simp: insert_thread_def)
  next
    case False
    with assms c t nf show ?thesis by (auto simp: insert_thread_def Let_def)
  qed
qed

lemma ensure_thread_frame:
  assumes "ensure_thread e req acct w = (r, w')"
  shows "accounts w' = accounts w \<and> messages w' = messages w \<and> attachments w' = attachments w
     \<and> sendLog w' = sendLog w \<and> recorded w' = recorded w \<and> logged w' = logged w
     \<and> (faults w = [] \<longrightarrow> faults w' = [] \<and> (\<exists>t. r = Returned t))"
proof (cases "req_threadId req")
  case (Some tid)
  with assms show ?thesis by (auto simp: ensure_thread_def)
next
  case None
  obtain r1 w1 where i: "insert_thread (outbound_thread_values e req acct) w = (r1, w1)"
    by (cases "insert_thread (outbound_thread_values e req acct) w")
  from assms None i have "w' = w1" "(\<exists>t. r1 = Returned t) \<longrightarrow> (\<exists>t. r = Returned t)"
    by (auto simp: ensure_thread_def split: outcome.splits)
  with insert_thread_frame [OF i] show ?thesis by simp
qed

lemma insert_message_frame:
  assumes "insert_message vals w = (r, w')"
  shows "accounts w' = accounts w \<and> attachments w' = attachments w
     \<and> sendLog w' = sendLog w \<and> recorded w' = recorded w \<and> logged w' = logged w
     \<and> (r = Thrown \<longrightarrow> messages w' = messages w)
     \<and> (\<forall>row. r = Returned row \<longrightarrow>
           row = vals\<lparr>msg_id := nextId w\<rparr> \<and> messages w' = messages w @ [row])"
proof -
  obtain f w1 where c: "db_call w = (f, w1)" by (cases "db_call w")
  note t = db_call_result [OF c]
  have nf: "faults w = [] \<longrightarrow> \<not> f \<and> faults w1 = []"
    using c by (auto simp: db_call_def)
  show ?thesis
  proof (cases f)
    case True
    with assms c t nf show ?thesis by (auto simp: insert_message_def)
  next
    case False
    with assms c t nf show ?thesis by (auto simp: insert_message_def Let_def)
  qed
qed

lemma insert_message_nofault:
  "faults w = [] \<Longrightarrow>
     insert_message vals w =
       (Returned (vals\<lparr>msg_id := nextId w\<rparr>),
        w\<lparr>messages := messages w @ [vals\<lparr>msg_id := nextId w\<rparr>], nextId := Suc (nextId w)\<rparr>)"
  by (simp add: insert_message_def db_call_nofault Let_def)

lemma insert_attachments_frame:
  assumes "insert_attachments e req mid w = (r, w')"
  shows "accounts w' = accounts w \<and> messages w' = messages w \<and> threads w' = threads w
     \<and> sendLog w' = sendLog w \<and> recorded w' = recorded w \<and> logged w' = logged w
     \<and> (faults w = [] \<longrightarrow> faults w' = [] \<and> r = Returned ())"
proof (cases "req_files req = []")
  case True
  with assms show ?thesis by (auto simp: insert_attachments_def)
next
  case files: False
  obtain f w1 where c: "db_call w = (f, w1)" by (cases "db_call w")
  note t = db_call_result [OF c]
  have nf: "faults w = [] \<longrightarrow> \<not> f \<and> faults w1 = []"
    using c by (auto simp: db_call_def)
  show ?thesis
  proof (cases f)
    case True
    with assms files c t nf show ?thesis by (auto simp: insert_attachments_def)
  next
    case False
    with assms files c t nf show ?thesis by (auto simp: insert_attachments_def)
  qed
qed

lemma update_thread_frame:
  assumes "update_thread e tid w = (r, w')"
  shows "accounts w' = accounts w \<and> messages w' = messages w \<and> attachments w' = attachments w
     \<and> sendLog w' = sendLog w \<and> recorded w' = recorded w \<and> logged w' = logged w
     \<and> (faults w = [] \<longrightarrow> faults w' = [] \<and> r = Returned ())"
proof -
  obtain f w1 where c: "db_call w = (f, w1)" by (cases "db_call w")
  note t = db_call_result [OF c]
  have nf: "faults w = [] \<longrightarrow> \<not> f \<and> faults w1 = []"
    using c by (auto simp: db_call_def)
  show ?thesis
  proof (cases f)
    case True
    with assms c t nf show ?thesis by (auto simp: update_thread_def)
  next
    case False
    with assms c t nf show ?thesis by (auto simp: update_thread_def)
  qed
qed

text \<open>
  The second half of the handler: it stops at a failed insert before any send, or it
  sends once and tells the rate limiter exactly when the send succeeded.
\<close>

lemma persist_and_send_effects:
  assumes "persist_and_send e req acct san txt w = (resp, w')"
  shows "(resp = ServerError \<and> sendLog w' = sendLog w \<and> recorded w' = recorded w
            \<and> logged w' = logged w)
       \<or> (\<exists>r. (resp = ServerError \<or> (\<exists>mid tid. resp = Created mid tid r))
            \<and> sendLog w' = sendLog w @ [r]
            \<and> recorded w' = recorded w @ (if success r then [(user_id req, provider_of acct)] else [])
            \<and> logged w' = logged w @
                 [if success r then Info ''Email sent successfully''
                  else Warn ''Email sending failed, but message saved:''])"
proof -
  obtain r1 w1 where s1: "ensure_thread e req acct w = (r1, w1)"
    by (cases "ensure_thread e req acct w")
  note f1 = ensure_thread_frame [OF s1]
  show ?thesis
  proof (cases r1)
    case Thrown
    with assms s1 f1 show ?thesis by (simp add: persist_and_send_def)
  next
    case (Returned tid)
    obtain r2 w2 where s2:
      "insert_message (outbound_message_values e req acct san txt tid) w1 = (r2, w2)"
      by (cases "insert_message (outbound_message_values e req acct san txt tid) w1")
    note f2 = insert_message_frame [OF s2]
    show ?thesis
    proof (cases r2)
      case Thrown
      with assms s1 Returned s2 f1 f2 show ?thesis by (simp add: persist_and_send_def)
    next
      case msg: (Returned row)
      obtain r3 w3 where s3: "insert_attachments e req (msg_id row) w2 = (r3, w3)"
        by (cases "insert_attachments e req (msg_id row) w2")
      note f3 = insert_attachments_frame [OF s3]
      show ?thesis
      proof (cases r3)
        case Thrown
        with assms s1 Returned s2 msg s3 f1 f2 f3 show ?thesis
          by (simp add: persist_and_send_def)
      next
        case att: (Returned u)
        obtain r w4 where s4:
          "sendFromAccount e (acc_id acct) (outbound_email_data req san txt) w3 = (r, w4)"
          by (cases "sendFromAccount e (acc_id acct) (outbound_email_data req san txt) w3")
        note f4 = sendFromAccount_frame [OF s4]
        obtain r5 w5 where s5:
          "update_thread e tid (after_send req (provider_of acct) r w4) = (r5, w5)"
          by (cases "update_thread e tid (after_send req (provider_of acct) r w4)")
        note f5 = update_thread_frame [OF s5]
        have resp: "resp = (case r5 of Thrown \<Rightarrow> ServerError
            | Returned u2 \<Rightarrow> Created (msg_id row) tid r)" and w': "w' = w5"
          using assms s1 Returned s2 msg s3 att s4 s5
          by (auto simp: persist_and_send_def split: outcome.splits)
        have "(resp = ServerError \<or> (\<exists>mid tid. resp = Created mid tid r))"
          using resp by (cases r5) auto
        moreover have "sendLog w' = sendLog w @ [r]"
          using w' f1 f2 f3 f4 f5 by (simp add: after_send_def)
        moreover have "recorded w' =
            recorded w @ (if success r then [(user_id req, provider_of acct)] else [])"
          using w' f1 f2 f3 f4 f5 by (simp add: after_send_def)
        moreover have "logged w' = logged w @
                 [if success r then Info ''Email sent successfully''
                  else Warn ''Email sending failed, but message saved:'']"
          using w' f1 f2 f3 f4 f5 by (simp add: after_send_def)
        ultimately show ?thesis by blast
      qed
    qed
  qed
qed

text \<open>With no failing database call the message is inserted, sent once and answered 201.\<close>

lemma persist_and_send_nofault:
  assumes nf: "faults w = []"
  shows "\<exists>mid tid r w'. persist_and_send e req acct san txt w = (Created mid tid r, w')
      \<and> sendLog w' = sendLog w @ [r]
      \<and> messages w' = messages w @
           [(outbound_message_values e req acct san txt tid)\<lparr>msg_id := mid\<rparr>]"
proof -
  obtain r1 w1 where s1: "ensure_thread e req acct w = (r1, w1)"
    by (cases "ensure_thread e req acct w")
  from ensure_thread_frame [OF s1] nf obtain tid where
    r1: "r1 = Returned tid" and nf1: "faults w1 = []" and m1: "messages w1 = messages w"
    and l1: "sendLog w1 = sendLog w"
    by auto
  let ?vals = "outbound_message_values e req acct san txt tid"
  let ?row = "?vals\<lparr>msg_id := nextId w1\<rparr>"
  define w2 where "w2 = w1\<lparr>messages := messages w1 @ [?row], nextId := Suc (nextId w1)\<rparr>"
  have s2: "insert_message ?vals w1 = (Returned ?row, w2)"
    unfolding w2_def using nf1 by (rule insert_message_nofault)
  have nf2: "faults w2 = []" and m2: "messages w2 = messages w1 @ [?row]"
    and l2: "sendLog w2 = sendLog w1"
    using nf1 by (simp_all add: w2_def)
  obtain r3 w3 where s3: "insert_attachments e req (msg_id ?row) w2 = (r3, w3)"
    by (cases "insert_attachments e req (msg_id ?row) w2")
  from insert_attachments_frame [OF s3] nf2 have
    r3: "r3 = Returned ()" and nf3: "faults w3 = []"
    and m3: "messages w3 = messages w2" and l3: "sendLog w3 = sendLog w2"
    by auto
  obtain r w4 where s4:
    "sendFromAccount e (acc_id acct) (outbound_email_data req san txt) w3 = (r, w4)"
    by (cases "sendFromAccount e (acc_id acct) (outbound_email_data req san txt) w3")
  from sendFromAccount_frame [OF s4] nf3 have
    nf4: "faults w4 = []" and m4: "messages w4 = messages w3"
    and l4: "sendLog w4 = sendLog w3 @ [r]"
    by (auto simp: db_call_faults_empty)
  obtain r5 w5 where s5:
    "update_thread e tid (after_send req (provider_of acct) r w4) = (r5, w5)"
    by (cases "update_thread e tid (after_send req (provider_of acct) r w4)")
  have "faults (after_send req (provider_of acct) r w4) = []"
    using nf4 by (simp add: after_send_def)
  with update_thread_frame [OF s5] have
    r5: "r5 = Returned ()" and m5: "messages w5 = messages w4" and l5: "sendLog w5 = sendLog w4"
    by (auto simp: after_send_def)
  have "persist_and_send e req acct san txt w = (Created (msg_id ?row) tid r, w5)"
    using s1 r1 s2 s3 r3 s4 s5 r5 by (simp add: persist_and_send_def)
  moreover have "sendLog w5 = sendLog w @ [r]"
    using l1 l2 l3 l4 l5 by simp
  moreover have "messages w5 = messages w @ [?vals\<lparr>msg_id := msg_id ?row\<rparr>]"
    using m1 m2 m3 m4 m5 by simp
  ultimately show ?thesis by blast
qed

lemma js_or_empty [simp]: "js_or a [] = a"
  by (simp add: js_or_def)

lemma warn_moderate_frame [simp]:
  "accounts (warn_moderate sp w) = accounts w" "threads (warn_moderate sp w) = threads w"
  "messages (warn_moderate sp w) = messages w"
  "attachments (warn_moderate sp w) = attachments w"
  "faults (warn_moderate sp w) = faults w" "sendLog (warn_moderate sp w) = sendLog w"
  "recorded (warn_moderate sp w) = recorded w"
  by (simp_all add: warn_moderate_def)

lemma guarded_send_unfold:
  "guarded_send e req acct w =
     (if \<not> allowed (canSendEmail e (user_id req) (provider_of acct)) then
        (RateLimitExceeded (reason (canSendEmail e (user_id req) (provider_of acct)))
           (resetAt (canSendEmail e (user_id req) (provider_of acct)))
           (remaining (canSendEmail e (user_id req) (provider_of acct))), w)
      else if 7 \<le> score (spam_of e req acct) then
        (DeliverabilityBlocked (score (spam_of e req acct)) (issues (spam_of e req acct))
           (recommendations (spam_of e req acct)), w)
      else if length (finalTextBody_of e req) < 10 then
        (InsufficientContent, warn_moderate (spam_of e req acct) w)
      else persist_and_send e req acct (sanitizeHtmlForEmail e (req_htmlBody req))
             (finalTextBody_of e req) (warn_moderate (spam_of e req acct) w))"
  by (auto simp: guarded_send_def Let_def)

lemma resolve_account_frame:
  assumes "resolve_account req w = (r, w1)"
  shows "accounts w1 = accounts w \<and> threads w1 = threads w \<and> messages w1 = messages w
     \<and> attachments w1 = attachments w \<and> sendLog w1 = sendLog w \<and> recorded w1 = recorded w
     \<and> logged w1 = logged w"
proof -
  obtain f w2 where c: "db_call w = (f, w2)" by (cases "db_call w")
  note t = db_call_result [OF c]
  from assms c have "w1 = w2"
    by (auto simp: resolve_account_def getDefaultAccount_def split: option.splits if_splits)
  with t show ?thesis by simp
qed

lemma post_emails_send_reached:
  assumes "invalidRecipients_of e req = []"
    and "resolve_account req w = (Returned (Some acct), w1)"
  shows "post_emails_send e req w = guarded_send e req acct w1"
  using assms by (simp add: post_emails_send_def)

text \<open>The handler stops before the account is known, or it goes on to the checks.\<close>

lemma post_emails_send_cases:
  obtains (early) w1 where "post_emails_send e req w = (fst (post_emails_send e req w), w1)"
      "status (fst (post_emails_send e req w)) \<noteq> 201"
      "messages w1 = messages w" "threads w1 = threads w" "attachments w1 = attachments w"
      "sendLog w1 = sendLog w" "recorded w1 = recorded w" "logged w1 = logged w"
      "\<And>acct w2. resolve_account req w \<noteq> (Returned (Some acct), w2)
         \<or> invalidRecipients_of e req \<noteq> []"
    | (checks) acct w1 where "invalidRecipients_of e req = []"
      "resolve_account req w = (Returned (Some acct), w1)"
      "post_emails_send e req w = guarded_send e req acct w1"
proof (cases "invalidRecipients_of e req = []")
  case False
  then have "post_emails_send e req w = (InvalidRecipients (invalidRecipients_of e req), w)"
    by (simp add: post_emails_send_def)
  with False show ?thesis by (intro early [of w]) simp_all
next
  case True
  obtain r w1 where ra: "resolve_account req w = (r, w1)" by (cases "resolve_account req w")
  note f = resolve_account_frame [OF ra]
  show ?thesis
  proof (cases r)
    case Thrown
    with True ra have "post_emails_send e req w = (ServerError, w1)"
      by (simp add: post_emails_send_def)
    with f ra Thrown show ?thesis by (intro early [of w1]) simp_all
  next
    case (Returned found)
    show ?thesis
    proof (cases found)
      case None
      with True ra Returned have "post_emails_send e req w = (NoAccountConfigured, w1)"
        by (simp add: post_emails_send_def)
      with f ra Returned None show ?thesis by (intro early [of w1]) simp_all
    next
      case (Some acct)
      with True ra Returned show ?thesis
        by (intro checks [of acct w1]) (simp_all add: post_emails_send_def)
    qed
  qed
qed


lemma guarded_send_effects:
  assumes "guarded_send e req acct w = (resp, w')"
  shows "(status resp \<noteq> 201 \<and> status resp \<noteq> 500 \<and> sendLog w' = sendLog w \<and> recorded w' = recorded w
            \<and> messages w' = messages w \<and> threads w' = threads w
            \<and> attachments w' = attachments w)
       \<or> (resp = ServerError \<and> sendLog w' = sendLog w \<and> recorded w' = recorded w)
       \<or> (\<exists>r. (resp = ServerError \<or> (\<exists>mid tid. resp = Created mid tid r))
            \<and> sendLog w' = sendLog w @ [r]
            \<and> recorded w' =
                 recorded w @ (if success r then [(user_id req, provider_of acct)] else []))"
proof -
  let ?goal = "(status resp \<noteq> 201 \<and> status resp \<noteq> 500 \<and> sendLog w' = sendLog w \<and> recorded w' = recorded w
            \<and> messages w' = messages w \<and> threads w' = threads w
            \<and> attachments w' = attachments w)
       \<or> (resp = ServerError \<and> sendLog w' = sendLog w \<and> recorded w' = recorded w)
       \<or> (\<exists>r. (resp = ServerError \<or> (\<exists>mid tid. resp = Created mid tid r))
            \<and> sendLog w' = sendLog w @ [r]
            \<and> recorded w' =
                 recorded w @ (if success r then [(user_id req, provider_of acct)] else []))"
  consider (limited) "\<not> allowed (canSendEmail e (user_id req) (provider_of acct))"
    | (blocked) "allowed (canSendEmail e (user_id req) (provider_of acct))"
        "7 \<le> score (spam_of e req acct)"
    | (short) "allowed (canSendEmail e (user_id req) (provider_of acct))"
        "\<not> 7 \<le> score (spam_of e req acct)" "length (finalTextBody_of e req) < 10"
    | (sent) "allowed (canSendEmail e (user_id req) (provider_of acct))"
        "\<not> 7 \<le> score (spam_of e req acct)" "\<not> length (finalTextBody_of e req) < 10"
    by blast
  then show ?goal
  proof cases
    case limited
    with assms have "resp = RateLimitExceeded
        (reason (canSendEmail e (user_id req) (provider_of acct)))
        (resetAt (canSendEmail e (user_id req) (provider_of acct)))
        (remaining (canSendEmail e (user_id req) (provider_of acct)))" "w' = w"
      by (simp_all add: guarded_send_unfold)
    then show ?thesis by simp
  next
    case blocked
    with assms have "resp = DeliverabilityBlocked (score (spam_of e req acct))
        (issues (spam_of e req acct)) (recommendations (spam_of e req acct))" "w' = w"
      by (simp_all add: guarded_send_unfold)
    then show ?thesis by simp
  next
    case short
    with assms have "resp = InsufficientContent" "w' = warn_moderate (spam_of e req acct) w"
      by (simp_all add: guarded_send_unfold)
    then show ?thesis by simp
  next
    case sent
    with assms have "persist_and_send e req acct (sanitizeHtmlForEmail e (req_htmlBody req))
        (finalTextBody_of e req) (warn_moderate (spam_of e req acct) w) = (resp, w')"
      by (simp add: guarded_send_unfold)
    from persist_and_send_effects [OF this]
    consider (failed) "resp = ServerError"
        "sendLog w' = sendLog (warn_moderate (spam_of e req acct) w)"
        "recorded w' = recorded (warn_moderate (spam_of e req acct) w)"
      | (went) r where "resp = ServerError \<or> (\<exists>mid tid. resp = Created mid tid r)"
        "sendLog w' = sendLog (warn_moderate (spam_of e req acct) w) @ [r]"
        "recorded w' = recorded (warn_moderate (spam_of e req acct) w) @
          (if success r then [(user_id req, provider_of acct)] else [])"
      by blast
    then show ?thesis
    proof cases
      case failed
      then have "resp = ServerError \<and> sendLog w' = sendLog w \<and> recorded w' = recorded w"
        by simp
      then show ?thesis by blast
    next
      case went
      then have "(resp = ServerError \<or> (\<exists>mid tid. resp = Created mid tid r))
            \<and> sendLog w' = sendLog w @ [r]
            \<and> recorded w' =
                 recorded w @ (if success r then [(user_id req, provider_of acct)] else [])"
        by simp
      then show ?thesis by blast
    qed
  qed
qed

lemma guarded_send_logged:
  assumes "guarded_send e req acct w = (resp, w')"
    and "allowed (canSendEmail e (user_id req) (provider_of acct))"
    and "score (spam_of e req acct) < 7"
  shows "(resp = InsufficientContent \<or> resp = ServerError \<or> (\<exists>mid tid r. resp = Created mid tid r))
    \<and> (\<exists>extra. logged w' = logged (warn_moderate (spam_of e req acct) w) @ extra
          \<and> (\<forall>x \<in> set extra. \<forall>s. x \<noteq> WarnScore s))"
proof (cases "length (finalTextBody_of e req) < 10")
  case True
  with assms have "resp = InsufficientContent" "w' = warn_moderate (spam_of e req acct) w"
    by (simp_all add: guarded_send_unfold)
  then show ?thesis by simp
next
  case False
  with assms have "persist_and_send e req acct (sanitizeHtmlForEmail e (req_htmlBody req))
      (finalTextBody_of e req) (warn_moderate (spam_of e req acct) w) = (resp, w')"
    by (simp add: guarded_send_unfold)
  from persist_and_send_effects [OF this]
  consider (failed) "resp = ServerError"
      "logged w' = logged (warn_moderate (spam_of e req acct) w)"
    | (went) r where "resp = ServerError \<or> (\<exists>mid tid. resp = Created mid tid r)"
      "logged w' = logged (warn_moderate (spam_of e req acct) w) @
         [if success r then Info ''Email sent successfully''
          else Warn ''Email sending failed, but message saved:'']"
    by blast
  then show ?thesis
  proof cases
    case failed
    then show ?thesis by simp
  next
    case went
    let ?x = "if success r then Info ''Email sent successfully''
          else Warn ''Email sending failed, but message saved:''"
    from went(1) have "resp = InsufficientContent \<or> resp = ServerError
        \<or> (\<exists>mid tid r. resp = Created mid tid r)"
      by blast
    moreover have "\<forall>x \<in> set [?x]. \<forall>s. x \<noteq> WarnScore s" by simp
    with went(2) have "\<exists>extra. logged w' = logged (warn_moderate (spam_of e req acct) w) @ extra
          \<and> (\<forall>x \<in> set extra. \<forall>s. x \<noteq> WarnScore s)"
      by (intro exI [of _ "[?x]"] conjI)
    ultimately show ?thesis by (rule conjI)
  qed
qed

lemma guarded_send_short:
  assumes "guarded_send e req acct w = (resp, w')"
    and "length (finalTextBody_of e req) < 10"
  shows "status resp \<noteq> 201 \<and> messages w' = messages w \<and> threads w' = threads w
      \<and> sendLog w' = sendLog w
      \<and> (allowed (canSendEmail e (user_id req) (provider_of acct))
            \<and> score (spam_of e req acct) < 7 \<longrightarrow> resp = InsufficientContent)"
proof -
  consider (limited) "\<not> allowed (canSendEmail e (user_id req) (provider_of acct))"
    | (blocked) "allowed (canSendEmail e (user_id req) (provider_of acct))"
        "7 \<le> score (spam_of e req acct)"
    | (short) "allowed (canSendEmail e (user_id req) (provider_of acct))"
        "\<not> 7 \<le> score (spam_of e req acct)"
    by blast
  then show ?thesis
  proof cases
    case limited
    with assms have "resp = RateLimitExceeded
        (reason (canSendEmail e (user_id req) (provider_of acct)))
        (resetAt (canSendEmail e (user_id req) (provider_of acct)))
        (remaining (canSendEmail e (user_id req) (provider_of acct)))" "w' = w"
      by (simp_all add: guarded_send_unfold)
    with limited show ?thesis by simp
  next
    case blocked
    with assms have "resp = DeliverabilityBlocked (score (spam_of e req acct))
        (issues (spam_of e req acct)) (recommendations (spam_of e req acct))" "w' = w"
      by (simp_all add: guarded_send_unfold)
    with blocked show ?thesis by simp
  next
    case short
    with assms have "resp = InsufficientContent" "w' = warn_moderate (spam_of e req acct) w"
      by (simp_all add: guarded_send_unfold)
    then show ?thesis by simp
  qed
qed

section \<open>The claims\<close>

subsection \<open>C1: a message already stored is skipped\<close>

text \<open>
  Claim C1. For every inbound message whose \<open>externalMessageId\<close> is already in storage,
  \<open>saveMessageWithRetry\<close> inserts nothing (the messages and the threads are as before)
  and returns \<open>false\<close>, whatever database calls fail on the way; the function has no
  other outcome than \<open>true\<close> or \<open>false\<close>. And when it returns \<open>true\<close>, storage holds
  exactly one message with that \<open>externalMessageId\<close>, so that saving the same provider
  message again is such a skip.
\<close>

theorem resync_is_skipped:
  "((\<exists>x \<in> set (messages w). externalMessageId x = Some (xm_externalMessageId m)) \<longrightarrow>
      fst (saveMessageWithRetry m acct uid retries w) = False
      \<and> messages (snd (saveMessageWithRetry m acct uid retries w)) = messages w
      \<and> threads (snd (saveMessageWithRetry m acct uid retries w)) = threads w)
   \<and> (fst (saveMessageWithRetry m acct uid retries w) = True \<longrightarrow>
      length (filter (\<lambda>x. externalMessageId x = Some (xm_externalMessageId m))
        (messages (snd (saveMessageWithRetry m acct uid retries w)))) = 1)"
proof -
  obtain b w' where s: "saveMessageWithRetry m acct uid retries w = (b, w')"
    by (cases "saveMessageWithRetry m acct uid retries w")
  note c = saveMessageWithRetry_cases [OF s]
  have first: "(\<exists>x \<in> set (messages w). externalMessageId x = Some (xm_externalMessageId m)) \<Longrightarrow>
      \<not> b \<and> messages w' = messages w \<and> threads w' = threads w"
    using c by blast
  have second: "length (filter (\<lambda>x. externalMessageId x = Some (xm_externalMessageId m))
        (messages w')) = 1" if b
  proof -
    from c that obtain tid k where
      none: "\<not> (\<exists>x \<in> set (messages w). externalMessageId x = Some (xm_externalMessageId m))"
      and app: "messages w' = messages w @
              [(inbound_message_values m acct uid (sanitizeHtml (xm_htmlBody m)) tid)
                 \<lparr>msg_id := k\<rparr>]"
      by blast
    from none have "filter (\<lambda>x. externalMessageId x = Some (xm_externalMessageId m))
        (messages w) = []"
      by (simp add: filter_empty_conv)
    with app show ?thesis by (simp add: inbound_message_values_def)
  qed
  from first second s show ?thesis by simp
qed

theorem resync_is_skipped_witness:
  "fst (saveMessageWithRetry (inbound_T1 ''M1'') gmail_account ''u1'' 2 empty_world) = True
   \<and> length (filter (\<lambda>x. externalMessageId x = Some ''M1'')
        (messages (snd (saveMessageWithRetry (inbound_T1 ''M1'') gmail_account ''u1'' 2
           empty_world)))) = 1
   \<and> (\<exists>x \<in> set (messages (snd (saveMessageWithRetry (inbound_T1 ''M1'') gmail_account ''u1'' 2
           empty_world))). externalMessageId x = Some ''M1'')
   \<and> fst (saveMessageWithRetry (inbound_T1 ''M1'') gmail_account ''u1'' 2
        (snd (saveMessageWithRetry (inbound_T1 ''M1'') gmail_account ''u1'' 2 empty_world)))
      = False
   \<and> messages (snd (saveMessageWithRetry (inbound_T1 ''M1'') gmail_account ''u1'' 2
        (snd (saveMessageWithRetry (inbound_T1 ''M1'') gmail_account ''u1'' 2 empty_world))))
      = messages (snd (saveMessageWithRetry (inbound_T1 ''M1'') gmail_account ''u1'' 2
           empty_world))"
proof -
  let ?w1 = "snd (saveMessageWithRetry (inbound_T1 ''M1'') gmail_account ''u1'' 2 empty_world)"
  have saved: "fst (saveMessageWithRetry (inbound_T1 ''M1'') gmail_account ''u1'' 2 empty_world)
      = True"
    by code_simp
  have present: "\<exists>x \<in> set (messages ?w1).
      externalMessageId x = Some (xm_externalMessageId (inbound_T1 ''M1''))"
    by code_simp
  have id: "xm_externalMessageId (inbound_T1 ''M1'') = ''M1''"
    by (simp add: inbound_T1_def)
  from resync_is_skipped [of empty_world "inbound_T1 ''M1''" gmail_account "''u1''" 2]
    resync_is_skipped [of ?w1 "inbound_T1 ''M1''" gmail_account "''u1''" 2]
    saved present
  show ?thesis unfolding id by blast
qed

subsection \<open>C2: the thread of a provider thread\<close>

text \<open>
  Claim C2 says that a second inbound message with the same \<open>externalThreadId\<close> attaches
  to the thread created for the first, whose \<open>messageCount\<close> becomes 2. The thread
  inserted for the first message is not given the \<open>externalThreadId\<close>, so the query for
  a linked thread finds nothing for the second message: on empty storage, two messages
  \<open>M1\<close> and \<open>M2\<close> of the provider thread \<open>T1\<close> are both saved, into two threads (1 and
  3), neither linked to \<open>T1\<close>, each with \<open>messageCount\<close> 0.
\<close>

theorem second_message_opens_second_thread:
  "(case saveMessageWithRetry (inbound_T1 ''M1'') gmail_account ''u1'' 2 empty_world of
      (saved1, w1) \<Rightarrow>
        (case saveMessageWithRetry (inbound_T1 ''M2'') gmail_account ''u1'' 2 w1 of
           (saved2, w2) \<Rightarrow>
             (saved1, saved2, map thr_id (threads w2), map externalThreadId (threads w2),
              map messageCount (threads w2), map threadId (messages w2))))
   = (True, True, [1, 3], [None, None], [0, 0], [1, 3])"
  by code_simp

subsection \<open>C3: the message count of a thread\<close>

text \<open>
  Claim C3 says that every insert of a message increments the \<open>messageCount\<close> of its
  thread, so that the count is the number of messages of the thread. The inbound path
  inserts the thread with \<open>messageCount: 0\<close>, inserts the message, and never updates the
  thread: after one inbound message is saved on empty storage, its thread has
  \<open>messageCount\<close> 0 and one message.
\<close>

theorem inbound_insert_leaves_messageCount:
  "(case saveMessageWithRetry (inbound_T1 ''M1'') gmail_account ''u1'' 2 empty_world of
      (saved, w) \<Rightarrow>
        (saved,
         map (\<lambda>t. (messageCount t, length (filter (\<lambda>r. threadId r = thr_id t) (messages w))))
           (threads w)))
   = (True, [(0, 1)])"
  by code_simp

subsection \<open>C4: the deliverability gate\<close>

text \<open>
  Claim C4. For a send request that reaches the spam check (its recipients are valid, its
  account is resolved, the rate limiter allows): with a score of at least 7 the answer is
  the block, with the score, the issues and the recommendations attached, and no message
  row is inserted and nothing is sent; with a score below 7 the answer is never the
  block, and with enough text and a working database the message row of type \<open>sent\<close> is
  inserted, the send is made once and the answer is 201; with a score from 5 to below 7
  the score and the issues are logged as warnings; below 5 no score warning is logged.
\<close>

theorem deliverability_gate:
  assumes "invalidRecipients_of e req = []"
    and "resolve_account req w = (Returned (Some acct), w1)"
    and "allowed (canSendEmail e (user_id req) (provider_of acct))"
    and "post_emails_send e req w = (resp, w')"
  shows "(7 \<le> score (spam_of e req acct) \<longrightarrow>
            resp = DeliverabilityBlocked (score (spam_of e req acct))
                     (issues (spam_of e req acct)) (recommendations (spam_of e req acct))
            \<and> messages w' = messages w \<and> threads w' = threads w
            \<and> sendLog w' = sendLog w \<and> recorded w' = recorded w)
     \<and> (score (spam_of e req acct) < 7 \<longrightarrow> (\<forall>s i r. resp \<noteq> DeliverabilityBlocked s i r))
     \<and> (score (spam_of e req acct) < 7 \<and> 10 \<le> length (finalTextBody_of e req)
          \<and> faults w1 = [] \<longrightarrow>
            (\<exists>mid tid r row. resp = Created mid tid r \<and> sendLog w' = sendLog w @ [r]
               \<and> messages w' = messages w @ [row] \<and> messageType row = ''sent''))
     \<and> (5 \<le> score (spam_of e req acct) \<and> score (spam_of e req acct) < 7 \<longrightarrow>
            WarnScore (score (spam_of e req acct)) \<in> set (logged w')
            \<and> WarnIssues (issues (spam_of e req acct)) \<in> set (logged w'))
     \<and> (score (spam_of e req acct) < 5 \<longrightarrow>
            (\<forall>s. WarnScore s \<in> set (logged w') \<longrightarrow> WarnScore s \<in> set (logged w)))"
proof -
  let ?sp = "spam_of e req acct"
  have g: "guarded_send e req acct w1 = (resp, w')"
    using assms(1,2,4) by (simp add: post_emails_send_reached)
  note f = resolve_account_frame [OF assms(2)]
  have blocked: "resp = DeliverabilityBlocked (score ?sp) (issues ?sp) (recommendations ?sp)
      \<and> messages w' = messages w \<and> threads w' = threads w
      \<and> sendLog w' = sendLog w \<and> recorded w' = recorded w" if "7 \<le> score ?sp"
  proof -
    from g assms(3) that
    have "resp = DeliverabilityBlocked (score ?sp) (issues ?sp) (recommendations ?sp)" "w' = w1"
      by (simp_all add: guarded_send_unfold)
    with f show ?thesis by simp
  qed
  have passes: "\<forall>s i r. resp \<noteq> DeliverabilityBlocked s i r" if "score ?sp < 7"
    using guarded_send_logged [OF g assms(3) that] by auto
  have sends: "\<exists>mid tid r row. resp = Created mid tid r \<and> sendLog w' = sendLog w @ [r]
               \<and> messages w' = messages w @ [row] \<and> messageType row = ''sent''"
    if "score ?sp < 7" "10 \<le> length (finalTextBody_of e req)" "faults w1 = []"
  proof -
    from g assms(3) that(1,2)
    have p: "persist_and_send e req acct (sanitizeHtmlForEmail e (req_htmlBody req))
        (finalTextBody_of e req) (warn_moderate ?sp w1) = (resp, w')"
      by (simp add: guarded_send_unfold)
    from that(3) have "faults (warn_moderate ?sp w1) = []" by simp
    from persist_and_send_nofault [OF this, of e req acct
        "sanitizeHtmlForEmail e (req_htmlBody req)" "finalTextBody_of e req"] p
    obtain mid tid r where "resp = Created mid tid r"
      "sendLog w' = sendLog (warn_moderate ?sp w1) @ [r]"
      "messages w' = messages (warn_moderate ?sp w1) @
         [(outbound_message_values e req acct (sanitizeHtmlForEmail e (req_htmlBody req))
             (finalTextBody_of e req) tid)\<lparr>msg_id := mid\<rparr>]"
      by auto
    then have "resp = Created mid tid r \<and> sendLog w' = sendLog w @ [r]
        \<and> messages w' = messages w @
         [(outbound_message_values e req acct (sanitizeHtmlForEmail e (req_htmlBody req))
             (finalTextBody_of e req) tid)\<lparr>msg_id := mid\<rparr>]
        \<and> messageType ((outbound_message_values e req acct
             (sanitizeHtmlForEmail e (req_htmlBody req))
             (finalTextBody_of e req) tid)\<lparr>msg_id := mid\<rparr>) = ''sent''"
      using f by (simp add: outbound_message_values_def)
    then show ?thesis by blast
  qed
  have warns: "WarnScore (score ?sp) \<in> set (logged w') \<and> WarnIssues (issues ?sp) \<in> set (logged w')"
    if "5 \<le> score ?sp" "score ?sp < 7"
  proof -
    from that(1) have l: "logged (warn_moderate ?sp w1) =
        logged w1 @ [WarnScore (score ?sp), WarnIssues (issues ?sp)]"
      by (simp add: warn_moderate_def)
    from guarded_send_logged [OF g assms(3) that(2)] obtain extra
      where "logged w' = logged (warn_moderate ?sp w1) @ extra" by blast
    with l have "logged w' = logged w1 @ [WarnScore (score ?sp), WarnIssues (issues ?sp)] @ extra"
      by simp
    then show ?thesis by simp
  qed
  have silent: "\<forall>s. WarnScore s \<in> set (logged w') \<longrightarrow> WarnScore s \<in> set (logged w)"
    if "score ?sp < 5"
  proof -
    from that have l: "logged (warn_moderate ?sp w1) = logged w" and lt: "score ?sp < 7"
      using f by (simp_all add: warn_moderate_def)
    from guarded_send_logged [OF g assms(3) lt] obtain extra
      where "logged w' = logged (warn_moderate ?sp w1) @ extra"
        and "\<forall>x \<in> set extra. \<forall>s. x \<noteq> WarnScore s" by blast
    with l have "set (logged w') = set (logged w) \<union> set extra"
      and "\<forall>s. WarnScore s \<notin> set extra" by auto
    then show ?thesis by simp
  qed
  from blocked passes sends warns silent show ?thesis by blast
qed

theorem deliverability_gate_witness:
  "fst (post_emails_send example_env (good_request\<lparr>req_subject := ''sevenup''\<rparr>) two_accounts)
     = DeliverabilityBlocked 7 [''subject: sevenup''] []
   \<and> messages (snd (post_emails_send example_env (good_request\<lparr>req_subject := ''sevenup''\<rparr>)
        two_accounts)) = messages two_accounts
   \<and> sendLog (snd (post_emails_send example_env (good_request\<lparr>req_subject := ''sevenup''\<rparr>)
        two_accounts)) = sendLog two_accounts
   \<and> (\<exists>mid tid r row.
        fst (post_emails_send example_env (good_request\<lparr>req_subject := ''sixsix''\<rparr>)
          two_accounts) = Created mid tid r
        \<and> messages (snd (post_emails_send example_env (good_request\<lparr>req_subject := ''sixsix''\<rparr>)
          two_accounts)) = messages two_accounts @ [row]
        \<and> messageType row = ''sent'')
   \<and> WarnScore 6 \<in> set (logged (snd (post_emails_send example_env
        (good_request\<lparr>req_subject := ''sixsix''\<rparr>) two_accounts)))
   \<and> (\<exists>mid tid r.
        fst (post_emails_send example_env good_request two_accounts) = Created mid tid r)
   \<and> WarnScore 2 \<notin> set (logged (snd (post_emails_send example_env good_request two_accounts)))"
proof -
  let ?b = "good_request\<lparr>req_subject := ''sevenup''\<rparr>"
  let ?m = "good_request\<lparr>req_subject := ''sixsix''\<rparr>"
  let ?g = "good_request"
  have inv: "invalidRecipients_of example_env ?b = []" "invalidRecipients_of example_env ?m = []"
    "invalidRecipients_of example_env ?g = []"
    by code_simp+
  have "fst (resolve_account ?b two_accounts) = Returned (Some smtp_account)"
    "fst (resolve_account ?m two_accounts) = Returned (Some smtp_account)"
    "fst (resolve_account ?g two_accounts) = Returned (Some smtp_account)"
    by code_simp+
  then have res:
    "resolve_account ?b two_accounts = (Returned (Some smtp_account), snd (resolve_account ?b two_accounts))"
    "resolve_account ?m two_accounts = (Returned (Some smtp_account), snd (resolve_account ?m two_accounts))"
    "resolve_account ?g two_accounts = (Returned (Some smtp_account), snd (resolve_account ?g two_accounts))"
    by (simp_all add: prod_eq_iff)
  have nf: "faults (snd (resolve_account ?m two_accounts)) = []"
    "faults (snd (resolve_account ?g two_accounts)) = []"
    by code_simp+
  have al: "allowed (canSendEmail example_env (user_id ?b) (provider_of smtp_account))"
    "allowed (canSendEmail example_env (user_id ?m) (provider_of smtp_account))"
    "allowed (canSendEmail example_env (user_id ?g) (provider_of smtp_account))"
    by code_simp+
  have sb: "spam_of example_env ?b smtp_account =
      \<lparr>score = 7, issues = [''subject: sevenup''], recommendations = []\<rparr>"
    by code_simp
  have sm: "spam_of example_env ?m smtp_account =
      \<lparr>score = 6, issues = [''subject: sixsix''], recommendations = []\<rparr>"
    by code_simp
  have sg: "score (spam_of example_env ?g smtp_account) = 2" by code_simp
  have len: "10 \<le> length (finalTextBody_of example_env ?m)"
    "10 \<le> length (finalTextBody_of example_env ?g)"
    by code_simp+
  have lg: "WarnScore 2 \<notin> set (logged two_accounts)" by code_simp
  note tb = deliverability_gate [OF inv(1) res(1) al(1) surjective_pairing, unfolded sb, simplified]
  note tm = deliverability_gate [OF inv(2) res(2) al(2) surjective_pairing, unfolded sm, simplified]
  note tg = deliverability_gate [OF inv(3) res(3) al(3) surjective_pairing, unfolded sg, simplified]
  from tb have "fst (post_emails_send example_env ?b two_accounts)
       = DeliverabilityBlocked 7 [''subject: sevenup''] []
     \<and> messages (snd (post_emails_send example_env ?b two_accounts)) = messages two_accounts
     \<and> sendLog (snd (post_emails_send example_env ?b two_accounts)) = sendLog two_accounts"
    by simp
  moreover from tm len(1) nf(1) have "(\<exists>mid tid r row.
        fst (post_emails_send example_env ?m two_accounts) = Created mid tid r
        \<and> messages (snd (post_emails_send example_env ?m two_accounts)) =
            messages two_accounts @ [row]
        \<and> messageType row = ''sent'')
     \<and> WarnScore 6 \<in> set (logged (snd (post_emails_send example_env ?m two_accounts)))"
    by blast
  moreover from tg len(2) nf(2) lg have "(\<exists>mid tid r.
        fst (post_emails_send example_env ?g two_accounts) = Created mid tid r)
     \<and> WarnScore 2 \<notin> set (logged (snd (post_emails_send example_env ?g two_accounts)))"
    by blast
  ultimately show ?thesis by blast
qed

subsection \<open>C5: the text body\<close>

text \<open>
  Claim C5. For a send request with no text body, the text body is the sanitized HTML
  with its tags removed, trimmed. When it has fewer than 10 characters the request is
  rejected and no message row is inserted, no thread either, and nothing is sent; the
  rejection is \<open>InsufficientContent\<close> when the request reaches that check (valid
  recipients, an account, the rate limiter allows, a score below 7). When it has at
  least 10 characters, the derived text is the \<open>textBody\<close> of the inserted row. In
  particular the body \<open><p>hi</p>\<close>, left as it is by the sanitizer, gives \<open>hi\<close> and the
  request is rejected.
\<close>

theorem text_body_derived_or_rejected:
  assumes "req_textBody req = []"
    and "post_emails_send e req w = (resp, w')"
  shows "finalTextBody_of e req =
           trim (replace_all match_tag 0 (sanitizeHtmlForEmail e (req_htmlBody req)))
     \<and> (length (finalTextBody_of e req) < 10 \<longrightarrow>
           status resp \<noteq> 201 \<and> messages w' = messages w \<and> threads w' = threads w
           \<and> sendLog w' = sendLog w)
     \<and> (length (finalTextBody_of e req) < 10 \<and> invalidRecipients_of e req = []
          \<and> resolve_account req w = (Returned (Some acct), w1)
          \<and> allowed (canSendEmail e (user_id req) (provider_of acct))
          \<and> score (spam_of e req acct) < 7 \<longrightarrow> resp = InsufficientContent)
     \<and> (10 \<le> length (finalTextBody_of e req) \<and> invalidRecipients_of e req = []
          \<and> resolve_account req w = (Returned (Some acct), w1)
          \<and> allowed (canSendEmail e (user_id req) (provider_of acct))
          \<and> score (spam_of e req acct) < 7 \<and> faults w1 = [] \<longrightarrow>
           (\<exists>row. messages w' = messages w @ [row]
              \<and> textBody row = finalTextBody_of e req
              \<and> htmlBody row = sanitizeHtmlForEmail e (req_htmlBody req)))
     \<and> (req_htmlBody req = ''<p>hi</p>'' \<and> sanitizeHtmlForEmail e ''<p>hi</p>'' = ''<p>hi</p>''
          \<longrightarrow> finalTextBody_of e req = ''hi'' \<and> status resp \<noteq> 201)"
proof -
  have derived: "finalTextBody_of e req =
      trim (replace_all match_tag 0 (sanitizeHtmlForEmail e (req_htmlBody req)))"
    using assms(1) by (simp add: finalTextBody_of_def js_or_def)
  have rejected: "status resp \<noteq> 201 \<and> messages w' = messages w \<and> threads w' = threads w
           \<and> sendLog w' = sendLog w" if short: "length (finalTextBody_of e req) < 10"
  proof (cases rule: post_emails_send_cases [of e req w])
    case (early w2)
    with assms(2) have "w' = w2" "resp = fst (post_emails_send e req w)" by simp_all
    with early show ?thesis by simp
  next
    case (checks a w2)
    with assms(2) have "guarded_send e req a w2 = (resp, w')" by simp
    from guarded_send_short [OF this short] resolve_account_frame [OF checks(2)]
    show ?thesis by simp
  qed
  have insufficient: "resp = InsufficientContent"
    if "length (finalTextBody_of e req) < 10" "invalidRecipients_of e req = []"
      "resolve_account req w = (Returned (Some acct), w1)"
      "allowed (canSendEmail e (user_id req) (provider_of acct))"
      "score (spam_of e req acct) < 7"
  proof -
    from that(2,3) assms(2) have "guarded_send e req acct w1 = (resp, w')"
      by (simp add: post_emails_send_reached)
    from guarded_send_short [OF this that(1)] that(4,5) show ?thesis by simp
  qed
  have persisted: "\<exists>row. messages w' = messages w @ [row]
              \<and> textBody row = finalTextBody_of e req
              \<and> htmlBody row = sanitizeHtmlForEmail e (req_htmlBody req)"
    if "10 \<le> length (finalTextBody_of e req)" "invalidRecipients_of e req = []"
      "resolve_account req w = (Returned (Some acct), w1)"
      "allowed (canSendEmail e (user_id req) (provider_of acct))"
      "score (spam_of e req acct) < 7" "faults w1 = []"
  proof -
    let ?sp = "spam_of e req acct"
    let ?san = "sanitizeHtmlForEmail e (req_htmlBody req)"
    from that(2,3) assms(2) have "guarded_send e req acct w1 = (resp, w')"
      by (simp add: post_emails_send_reached)
    with that(1,4,5)
    have p: "persist_and_send e req acct ?san (finalTextBody_of e req) (warn_moderate ?sp w1)
        = (resp, w')"
      by (simp add: guarded_send_unfold)
    from that(6) have "faults (warn_moderate ?sp w1) = []" by simp
    from persist_and_send_nofault [OF this, of e req acct ?san "finalTextBody_of e req"] p
    obtain mid tid where "messages w' = messages (warn_moderate ?sp w1) @
         [(outbound_message_values e req acct ?san (finalTextBody_of e req) tid)
            \<lparr>msg_id := mid\<rparr>]"
      by auto
    with resolve_account_frame [OF that(3)]
    have "messages w' = messages w @
         [(outbound_message_values e req acct ?san (finalTextBody_of e req) tid)
            \<lparr>msg_id := mid\<rparr>]
      \<and> textBody ((outbound_message_values e req acct ?san (finalTextBody_of e req) tid)
            \<lparr>msg_id := mid\<rparr>) = finalTextBody_of e req
      \<and> htmlBody ((outbound_message_values e req acct ?san (finalTextBody_of e req) tid)
            \<lparr>msg_id := mid\<rparr>) = ?san"
      by (simp add: outbound_message_values_def)
    then show ?thesis by blast
  qed
  have hi: "trim (replace_all match_tag 0 ''<p>hi</p>'') = ''hi''"
    by (simp add: trim_def match_tag_def is_space_def)
  have example: "finalTextBody_of e req = ''hi'' \<and> status resp \<noteq> 201"
    if "req_htmlBody req = ''<p>hi</p>''" "sanitizeHtmlForEmail e ''<p>hi</p>'' = ''<p>hi</p>''"
  proof -
    from that derived hi have d: "finalTextBody_of e req = ''hi''" by simp
    then have "length (finalTextBody_of e req) < 10" by simp
    from rejected [OF this] d show ?thesis by simp
  qed
  from derived rejected insufficient persisted example show ?thesis by blast
qed

theorem text_body_derived_or_rejected_witness:
  "finalTextBody_of example_env example_request = ''hi''
   \<and> fst (post_emails_send example_env example_request two_accounts) = InsufficientContent
   \<and> messages (snd (post_emails_send example_env example_request two_accounts)) =
       messages two_accounts
   \<and> (\<exists>row. messages (snd (post_emails_send example_env good_request two_accounts)) =
          messages two_accounts @ [row]
        \<and> textBody row = ''Hello there, how are you?''
        \<and> htmlBody row = ''<p>Hello there, how are you?</p>'')"
proof -
  let ?x = example_request
  let ?g = good_request
  have tb: "req_textBody ?x = []" "req_textBody ?g = []" by code_simp+
  have html: "req_htmlBody ?x = ''<p>hi</p>''
      \<and> sanitizeHtmlForEmail example_env ''<p>hi</p>'' = ''<p>hi</p>''"
    by code_simp
  have inv: "invalidRecipients_of example_env ?x = []" "invalidRecipients_of example_env ?g = []"
    by code_simp+
  have "fst (resolve_account ?x two_accounts) = Returned (Some smtp_account)"
    "fst (resolve_account ?g two_accounts) = Returned (Some smtp_account)"
    by code_simp+
  then have res:
    "resolve_account ?x two_accounts = (Returned (Some smtp_account), snd (resolve_account ?x two_accounts))"
    "resolve_account ?g two_accounts = (Returned (Some smtp_account), snd (resolve_account ?g two_accounts))"
    by (simp_all add: prod_eq_iff)
  have nf: "faults (snd (resolve_account ?g two_accounts)) = []" by code_simp
  have al: "allowed (canSendEmail example_env (user_id ?x) (provider_of smtp_account))"
    "allowed (canSendEmail example_env (user_id ?g) (provider_of smtp_account))"
    by code_simp+
  have sc: "score (spam_of example_env ?x smtp_account) < 7"
    "score (spam_of example_env ?g smtp_account) < 7"
    by code_simp+
  have fg: "finalTextBody_of example_env ?g = ''Hello there, how are you?''" by code_simp
  have hg: "sanitizeHtmlForEmail example_env (req_htmlBody ?g) = ''<p>Hello there, how are you?</p>''"
    by code_simp
  note tx = text_body_derived_or_rejected [OF tb(1) surjective_pairing,
      of example_env two_accounts smtp_account "snd (resolve_account ?x two_accounts)"]
  note tg = text_body_derived_or_rejected [OF tb(2) surjective_pairing,
      of example_env two_accounts smtp_account "snd (resolve_account ?g two_accounts)"]
  from tx html have hi: "finalTextBody_of example_env ?x = ''hi''" by blast
  then have short: "length (finalTextBody_of example_env ?x) < 10" by simp
  from tx short inv(1) res(1) al(1) sc(1)
  have "fst (post_emails_send example_env ?x two_accounts) = InsufficientContent
      \<and> messages (snd (post_emails_send example_env ?x two_accounts)) = messages two_accounts"
    by blast
  moreover have "10 \<le> length (finalTextBody_of example_env ?g)" unfolding fg by simp
  with tg inv(2) res(2) al(2) sc(2) nf
  have "\<exists>row. messages (snd (post_emails_send example_env ?g two_accounts)) =
          messages two_accounts @ [row]
        \<and> textBody row = finalTextBody_of example_env ?g
        \<and> htmlBody row = sanitizeHtmlForEmail example_env (req_htmlBody ?g)"
    by blast
  ultimately show ?thesis using hi unfolding fg hg by blast
qed

subsection \<open>C6: what \<open>sanitizeHtml\<close> strips, and what is persisted\<close>




subsection \<open>C7: the rate limiter is told of confirmed sends only\<close>

text \<open>
  Claim C7. In one run of the handler, either nothing is sent and the calls of
  \<open>recordEmailSent\<close> are as before, or \<open>sendFromAccount\<close> returns once, with a result
  \<open>r\<close>, and \<open>recordEmailSent\<close> is called exactly once (with the user and the provider of
  the account) when \<open>r.success\<close> holds and not at all otherwise. So a request rejected by
  an earlier check (status 400 or 429) leaves the counters alone, and so does a failed
  transport.
\<close>

theorem recordEmailSent_only_after_confirmed_send:
  assumes "post_emails_send e req w = (resp, w')"
  shows "((sendLog w' = sendLog w \<and> recorded w' = recorded w
            \<and> (\<forall>mid tid r. resp \<noteq> Created mid tid r))
          \<or> (\<exists>r acct w1. resolve_account req w = (Returned (Some acct), w1)
                \<and> (resp = ServerError \<or> (\<exists>mid tid. resp = Created mid tid r))
                \<and> sendLog w' = sendLog w @ [r]
                \<and> recorded w' =
                     recorded w @ (if success r then [(user_id req, provider_of acct)] else [])))
     \<and> (status resp = 400 \<or> status resp = 429 \<longrightarrow>
           sendLog w' = sendLog w \<and> recorded w' = recorded w)
     \<and> (\<forall>mid tid r. resp = Created mid tid r \<longrightarrow>
           sendLog w' = sendLog w @ [r]
           \<and> (if success r then length (recorded w') = Suc (length (recorded w))
               else recorded w' = recorded w))"
proof -
  have main: "(sendLog w' = sendLog w \<and> recorded w' = recorded w
            \<and> status resp \<noteq> 201)
          \<or> (resp = ServerError \<and> sendLog w' = sendLog w \<and> recorded w' = recorded w)
          \<or> (\<exists>r acct w1. resolve_account req w = (Returned (Some acct), w1)
                \<and> (resp = ServerError \<or> (\<exists>mid tid. resp = Created mid tid r))
                \<and> sendLog w' = sendLog w @ [r]
                \<and> recorded w' =
                     recorded w @ (if success r then [(user_id req, provider_of acct)] else []))"
  proof (cases rule: post_emails_send_cases [of e req w])
    case (early w1)
    with assms have "w' = w1" "resp = fst (post_emails_send e req w)" by simp_all
    with early show ?thesis by simp
  next
    case (checks acct w1)
    with assms have g: "guarded_send e req acct w1 = (resp, w')" by simp
    note f = resolve_account_frame [OF checks(2)]
    from guarded_send_effects [OF g]
    consider (rejected) "status resp \<noteq> 201" "sendLog w' = sendLog w1" "recorded w' = recorded w1"
      | (failed) "resp = ServerError" "sendLog w' = sendLog w1" "recorded w' = recorded w1"
      | (went) r where "resp = ServerError \<or> (\<exists>mid tid. resp = Created mid tid r)"
          "sendLog w' = sendLog w1 @ [r]"
          "recorded w' = recorded w1 @ (if success r then [(user_id req, provider_of acct)] else [])"
      by blast
    then show ?thesis
    proof cases
      case rejected
      with f show ?thesis by simp
    next
      case failed
      with f show ?thesis by simp
    next
      case went
      with f have "resolve_account req w = (Returned (Some acct), w1)
                \<and> (resp = ServerError \<or> (\<exists>mid tid. resp = Created mid tid r))
                \<and> sendLog w' = sendLog w @ [r]
                \<and> recorded w' =
                     recorded w @ (if success r then [(user_id req, provider_of acct)] else [])"
        using checks(2) by simp
      then show ?thesis by blast
    qed
  qed
  have first: "(sendLog w' = sendLog w \<and> recorded w' = recorded w
            \<and> (\<forall>mid tid r. resp \<noteq> Created mid tid r))
          \<or> (\<exists>r acct w1. resolve_account req w = (Returned (Some acct), w1)
                \<and> (resp = ServerError \<or> (\<exists>mid tid. resp = Created mid tid r))
                \<and> sendLog w' = sendLog w @ [r]
                \<and> recorded w' =
                     recorded w @ (if success r then [(user_id req, provider_of acct)] else []))"
    using main by (elim disjE) auto
  have second: "status resp = 400 \<or> status resp = 429 \<longrightarrow>
           sendLog w' = sendLog w \<and> recorded w' = recorded w"
    using main by (elim disjE) auto
  have third: "\<forall>mid tid r. resp = Created mid tid r \<longrightarrow>
           sendLog w' = sendLog w @ [r]
           \<and> (if success r then length (recorded w') = Suc (length (recorded w))
               else recorded w' = recorded w)"
    using main by (elim disjE) auto
  from first second third show ?thesis by blast
qed

theorem recordEmailSent_only_after_confirmed_send_witness:
  "length (recorded (snd (post_emails_send example_env good_request two_accounts))) =
     Suc (length (recorded two_accounts))
   \<and> map success (sendLog (snd (post_emails_send example_env good_request two_accounts)))
       = [True]
   \<and> recorded (snd (post_emails_send rejecting_env good_request two_accounts)) =
       recorded two_accounts
   \<and> map success (sendLog (snd (post_emails_send rejecting_env good_request two_accounts)))
       = [False]
   \<and> recorded (snd (post_emails_send example_env example_request two_accounts)) =
       recorded two_accounts
   \<and> sendLog (snd (post_emails_send example_env example_request two_accounts)) =
       sendLog two_accounts"
proof -
  let ?ok = "\<lparr>success = True, sr_messageId = Some ''s-1'', sr_error = None\<rparr>"
  let ?ko = "\<lparr>success = False, sr_messageId = None, sr_error = Some ''550 rejected''\<rparr>"
  let ?R1 = "post_emails_send example_env good_request two_accounts"
  let ?R2 = "post_emails_send rejecting_env good_request two_accounts"
  let ?R3 = "post_emails_send example_env example_request two_accounts"
  have c1: "fst ?R1 = Created 2 1 ?ok" by code_simp
  have c2: "fst ?R2 = Created 2 1 ?ko" by code_simp
  have c3: "status (fst ?R3) = 400" by code_simp
  have l: "sendLog two_accounts = []" by code_simp
  note t1 = recordEmailSent_only_after_confirmed_send
    [of example_env good_request two_accounts "fst ?R1" "snd ?R1", simplified]
  note t2 = recordEmailSent_only_after_confirmed_send
    [of rejecting_env good_request two_accounts "fst ?R2" "snd ?R2", simplified]
  note t3 = recordEmailSent_only_after_confirmed_send
    [of example_env example_request two_accounts "fst ?R3" "snd ?R3", simplified]
  from t1 c1 have "sendLog (snd ?R1) = sendLog two_accounts @ [?ok]
      \<and> length (recorded (snd ?R1)) = Suc (length (recorded two_accounts))"
    by simp
  moreover from t2 c2 have "sendLog (snd ?R2) = sendLog two_accounts @ [?ko]
      \<and> recorded (snd ?R2) = recorded two_accounts"
    by simp
  moreover from t3 c3 have "sendLog (snd ?R3) = sendLog two_accounts
      \<and> recorded (snd ?R3) = recorded two_accounts"
    by simp
  ultimately show ?thesis by (simp add: l)
qed

subsection \<open>C8: the transporter cache holds verified connections only\<close>

text \<open>
  Claim C8. For every account, \<open>getOrCreateTransporter\<close> returns the cached connection
  when the cache has one under the account's id, and then changes nothing. Otherwise it
  constructs a connection and calls \<open>verify\<close>; when \<open>verify\<close> succeeds the connection is
  cached and returned; when it fails the error \<open>SMTP connection verification failed.\<close> is
  raised and the cache is as before. Hence, if every cached connection had passed
  \<open>verify\<close> before the call, every cached connection has passed it after the call.
\<close>

theorem getOrCreateTransporter_cache:
  "(transporterCache w (acc_id acct) = Some t \<longrightarrow>
      getOrCreateTransporter ok acct w = (Inr t, w))
   \<and> (transporterCache w (acc_id acct) = None \<and> ok \<longrightarrow>
      getOrCreateTransporter ok acct w =
        (Inr (createTransport acct),
         w\<lparr>transporterCache := (transporterCache w)(acc_id acct \<mapsto> createTransport acct),
           verifyCalls := Suc (verifyCalls w),
           verified := verified w @ [createTransport acct]\<rparr>))
   \<and> (transporterCache w (acc_id acct) = None \<and> \<not> ok \<longrightarrow>
      fst (getOrCreateTransporter ok acct w) = Inl ''SMTP connection verification failed.''
      \<and> transporterCache (snd (getOrCreateTransporter ok acct w)) = transporterCache w
      \<and> verified (snd (getOrCreateTransporter ok acct w)) = verified w)
   \<and> (cache_verified w \<longrightarrow> cache_verified (snd (getOrCreateTransporter ok acct w)))"
  by (auto simp: getOrCreateTransporter_def getOrCreate_begin_def getOrCreate_resume_def
      cache_verified_def split: option.splits)

theorem getOrCreateTransporter_cache_witness:
  "getOrCreateTransporter True smtp_account
       (empty_world\<lparr>transporterCache := [8 \<mapsto> createTransport gmail_account]\<rparr>) =
     (Inr (createTransport gmail_account),
      empty_world\<lparr>transporterCache := [8 \<mapsto> createTransport gmail_account]\<rparr>)
   \<and> getOrCreateTransporter True smtp_account empty_world =
       (Inr (createTransport smtp_account),
        empty_world\<lparr>transporterCache := [8 \<mapsto> createTransport smtp_account],
          verifyCalls := 1, verified := [createTransport smtp_account]\<rparr>)
   \<and> fst (getOrCreateTransporter False smtp_account empty_world) =
       Inl ''SMTP connection verification failed.''
   \<and> transporterCache (snd (getOrCreateTransporter False smtp_account empty_world)) = Map.empty
   \<and> cache_verified empty_world
   \<and> cache_verified (snd (getOrCreateTransporter True smtp_account empty_world))"
  using getOrCreateTransporter_cache
      [of "empty_world\<lparr>transporterCache := [8 \<mapsto> createTransport gmail_account]\<rparr>"
        smtp_account "createTransport gmail_account" True]
    getOrCreateTransporter_cache [of empty_world smtp_account undefined True]
    getOrCreateTransporter_cache [of empty_world smtp_account undefined False]
  by (simp add: empty_world_def smtp_account_def cache_verified_def)

subsection \<open>C9: no single flight\<close>

text \<open>
  Claim C9 says that any number of concurrent calls for one account, with no entry in
  the cache, lead to exactly one \<open>verify\<close> call. The code has no guard between the
  cache test and the \<open>await\<close>: two calls that start before either \<open>verify\<close> has settled
  make two \<open>verify\<close> calls.
\<close>

theorem single_flight_counterexample:
  "verifyCalls (snd (run [Begin 0, Begin 1, Resume 0 True, Resume 1 True]
      ([Waiting smtp_account, Waiting smtp_account], empty_world))) = 2"
  by code_simp

text \<open>
  Claim C9 as amended. A call reuses a connection only when the cache already has an
  entry for the account at the moment the call starts. Of \<open>n\<close> calls for one account
  that all start before any verification has settled, with no entry in the cache, each
  constructs its own connection and issues its own \<open>verify\<close> call: \<open>n\<close> calls of
  \<open>verify\<close> reach the provider. With an entry in the cache, all \<open>n\<close> calls return it and
  none calls \<open>verify\<close>.
\<close>

theorem concurrent_callers_each_verify:
  "(transporterCache w (acc_id acct) = None \<longrightarrow>
      run (map Begin [0..<n]) (replicate n (Waiting acct), w) =
        (replicate n (Verifying acct (createTransport acct)),
         w\<lparr>verifyCalls := verifyCalls w + n\<rparr>))
   \<and> (transporterCache w (acc_id acct) = Some t \<longrightarrow>
      run (map Begin [0..<n]) (replicate n (Waiting acct), w) =
        (replicate n (Finished (Inr t)), w))"
  using begins_miss [of w acct n n] begins_hit [of w acct t n n] by simp

theorem concurrent_callers_each_verify_witness:
  "run (map Begin [0..<50]) (replicate 50 (Waiting smtp_account), empty_world) =
     (replicate 50 (Verifying smtp_account (createTransport smtp_account)),
      empty_world\<lparr>verifyCalls := 50\<rparr>)
   \<and> run (map Begin [0..<50]) (replicate 50 (Waiting smtp_account),
        snd (getOrCreateTransporter True smtp_account empty_world)) =
     (replicate 50 (Finished (Inr (createTransport smtp_account))),
      snd (getOrCreateTransporter True smtp_account empty_world))"
  using concurrent_callers_each_verify [of empty_world smtp_account 50 undefined]
    concurrent_callers_each_verify
      [of "snd (getOrCreateTransporter True smtp_account empty_world)" smtp_account 50
        "createTransport smtp_account"]
  by (simp add: empty_world_def smtp_account_def getOrCreateTransporter_def
      getOrCreate_begin_def getOrCreate_resume_def)

subsection \<open>C10: the default account\<close>

text \<open>
  Claim C10 says that \<open>getDefaultAccount\<close> returns \<open>null\<close> only when the user owns no
  account. A failed query is caught and \<open>null\<close> is returned as well: the user \<open>u1\<close> owns
  an account, the query throws, and the route answers that no account is configured.
\<close>

theorem getDefaultAccount_null_counterexample:
  "userId gmail_account = ''u1''
   \<and> fst (getDefaultAccount ''u1'' (empty_world\<lparr>accounts := [gmail_account], faults := [True]\<rparr>))
       = None
   \<and> fst (post_emails_send example_env example_request
        (empty_world\<lparr>accounts := [gmail_account], faults := [True]\<rparr>)) = NoAccountConfigured"
  by code_simp

text \<open>
  Claim C10 as amended. When the query throws, \<open>getDefaultAccount\<close> returns \<open>null\<close>. When
  it does not, \<open>null\<close> is returned exactly when the user owns no account, and otherwise
  an account of the user that no other account of the user precedes in the order
  (\<open>isDefault\<close> first, then the latest \<open>createdAt\<close>); neither \<open>isDefault\<close> nor \<open>isActive\<close>
  is required. An account that is not active can therefore be the one selected, and
  \<open>sendFromAccount\<close> for an account that is not active fails with
  \<open>Account not found or inactive\<close>.
\<close>

theorem getDefaultAccount_selection:
  "(fst (db_call w) \<longrightarrow> fst (getDefaultAccount uid w) = None)
   \<and> (\<not> fst (db_call w) \<longrightarrow>
        (fst (getDefaultAccount uid w) = None \<longleftrightarrow>
           \<not> (\<exists>a \<in> set (accounts w). userId a = uid))
        \<and> (\<forall>r. fst (getDefaultAccount uid w) = Some r \<longrightarrow>
              r \<in> set (accounts w) \<and> userId r = uid
              \<and> (\<forall>b \<in> set (accounts w). userId b = uid \<longrightarrow> \<not> precedes b r)))
   \<and> (\<not> fst (db_call w) \<and> find (\<lambda>a. acc_id a = accountId) (accounts w) = Some acct
        \<and> \<not> isActive acct \<longrightarrow>
        fst (sendFromAccount e accountId emailData w) = failure ''Account not found or inactive'')"
proof (intro conjI impI)
  assume "fst (db_call w)"
  then show "fst (getDefaultAccount uid w) = None"
    by (simp add: getDefaultAccount_def split_beta)
next
  assume ok: "\<not> fst (db_call w)"
  have g: "fst (getDefaultAccount uid w) = first_row (filter (\<lambda>a. userId a = uid) (accounts w))"
    using ok by (simp add: getDefaultAccount_def split_beta)
  show "(fst (getDefaultAccount uid w) = None) = (\<not> (\<exists>a \<in> set (accounts w). userId a = uid))"
    unfolding g first_row_None by (auto simp: filter_empty_conv)
  show "\<forall>r. fst (getDefaultAccount uid w) = Some r \<longrightarrow>
              r \<in> set (accounts w) \<and> userId r = uid
              \<and> (\<forall>b \<in> set (accounts w). userId b = uid \<longrightarrow> \<not> precedes b r)"
  proof (intro allI impI)
    fix r
    assume "fst (getDefaultAccount uid w) = Some r"
    then have "first_row (filter (\<lambda>a. userId a = uid) (accounts w)) = Some r"
      unfolding g .
    from first_row_Some [OF this]
    show "r \<in> set (accounts w) \<and> userId r = uid
        \<and> (\<forall>b \<in> set (accounts w). userId b = uid \<longrightarrow> \<not> precedes b r)"
      by simp
  qed
next
  assume "\<not> fst (db_call w) \<and> find (\<lambda>a. acc_id a = accountId) (accounts w) = Some acct
        \<and> \<not> isActive acct"
  then show "fst (sendFromAccount e accountId emailData w) =
      failure ''Account not found or inactive''"
    by (simp add: sendFromAccount_def split_beta)
qed

theorem getDefaultAccount_selection_witness:
  "fst (getDefaultAccount ''u1'' (two_accounts\<lparr>faults := [True]\<rparr>)) = None
   \<and> fst (getDefaultAccount ''u2'' two_accounts) = None
   \<and> fst (getDefaultAccount ''u1'' (empty_world\<lparr>accounts := [gmail_account, inactive_account]\<rparr>))
       = Some inactive_account
   \<and> \<not> precedes gmail_account inactive_account
   \<and> fst (sendFromAccount example_env 9 (outbound_email_data good_request [] [])
        (empty_world\<lparr>accounts := [gmail_account, inactive_account]\<rparr>))
       = failure ''Account not found or inactive''
   \<and> fst (post_emails_send example_env good_request
        (empty_world\<lparr>accounts := [gmail_account, inactive_account]\<rparr>))
       = Created 2 1 (failure ''Account not found or inactive'')"
proof -
  let ?w = "empty_world\<lparr>accounts := [gmail_account, inactive_account]\<rparr>"
  let ?d = "outbound_email_data good_request [] []"
  have f1: "fst (db_call (two_accounts\<lparr>faults := [True]\<rparr>))" by code_simp
  have f2: "\<not> fst (db_call two_accounts)" "\<not> fst (db_call ?w)" by code_simp+
  have none: "\<not> (\<exists>a \<in> set (accounts two_accounts). userId a = ''u2'')" by code_simp
  have sel: "fst (getDefaultAccount ''u1'' ?w) = Some inactive_account" by code_simp
  have g: "gmail_account \<in> set (accounts ?w) \<and> userId gmail_account = ''u1''" by code_simp
  have found: "find (\<lambda>a. acc_id a = 9) (accounts ?w) = Some inactive_account
      \<and> \<not> isActive inactive_account"
    by code_simp
  note t1 = getDefaultAccount_selection [of "two_accounts\<lparr>faults := [True]\<rparr>" "''u1''"]
  note t2 = getDefaultAccount_selection [of two_accounts "''u2''"]
  note t3 = getDefaultAccount_selection [of ?w "''u1''" 9 inactive_account example_env ?d]
  from t1 f1 have "fst (getDefaultAccount ''u1'' (two_accounts\<lparr>faults := [True]\<rparr>)) = None"
    by blast
  moreover from t2 f2(1) none have "fst (getDefaultAccount ''u2'' two_accounts) = None"
    by blast
  moreover from t3 f2(2) sel g have "\<not> precedes gmail_account inactive_account"
    by blast
  moreover from t3 f2(2) found have "fst (sendFromAccount example_env 9 ?d ?w)
       = failure ''Account not found or inactive''"
    by blast
  moreover have "fst (post_emails_send example_env good_request ?w)
       = Created 2 1 (failure ''Account not found or inactive'')"
    by code_simp
  ultimately show ?thesis using sel by blast
qed

end
